theory Spec2Isabelle
  imports Complex_Main
begin

section \<open>Numbers, failures and containers\<close>

text \<open>
  The container \<open>GRMDP<SType>\<close> of \<open>RMDP.hpp\<close> owns one field, the vector \<open>states\<close>.
  It is modelled by the list of its states. The scalar type \<open>prec_t\<close> is modelled by the
  real numbers: the matrix and reward builders only copy such values, and the arithmetic of
  normalization and of the occupancy system is exact. Identifiers of type
  \<open>long\<close> are integers; allocation limits of \<open>std::vector\<close> are not modelled.

  Every way in which a call can fail to return is a value of \<open>error\<close>:
  a violated \<open>assert\<close>, a subscript outside a vector or matrix, the resolution of an
  action and outcome pair that does not exist, a malformed model, the rescaling of
  an outcome whose weights add up to zero, and a linear system without a pivot.
\<close>

type_synonym prec_t = real

datatype error =
    Assertion_failed
  | Out_of_range
  | Invalid_resolution
  | Model_error
  | Zero_weight
  | Singular

text \<open>Subscript \<open>v[i]\<close> of a \<open>std::vector\<close>; outside the bounds the access is a failure.\<close>

definition vector_at :: "'a list \<Rightarrow> nat \<Rightarrow> error + 'a" where
  "vector_at v i = (if i < length v then Inr (v ! i) else Inl Out_of_range)"

text \<open>\<open>std::vector::resize\<close> with value-initialised new elements.\<close>

definition resize :: "'a \<Rightarrow> nat \<Rightarrow> 'a list \<Rightarrow> 'a list" where
  "resize dflt n v = take n v @ replicate (n - length v) dflt"

text \<open>A counted loop \<open>for (i : is) body\<close> over a state, leaving at the first failure.\<close>

primrec for_each :: "nat list \<Rightarrow> (nat \<Rightarrow> 'a \<Rightarrow> error + 'a) \<Rightarrow> 'a \<Rightarrow> error + 'a" where
  "for_each [] body a = Inr a"
| "for_each (i # is) body a =
     (case body i a of Inl e \<Rightarrow> Inl e | Inr a' \<Rightarrow> for_each is body a')"

text \<open>Applying a fallible function to every element, leaving at the first failure.\<close>

primrec map_err :: "('a \<Rightarrow> error + 'b) \<Rightarrow> 'a list \<Rightarrow> error + 'b list" where
  "map_err f [] = Inr []"
| "map_err f (x # xs) =
     (case f x of
        Inl e \<Rightarrow> Inl e
      | Inr y \<Rightarrow> (case map_err f xs of Inl e \<Rightarrow> Inl e | Inr ys \<Rightarrow> Inr (y # ys)))"

section \<open>Dense matrices\<close>

text \<open>
  A \<open>ublas::matrix<prec_t>\<close> is the list of its rows. \<open>zero_matrix n\<close> is the
  \<open>n\<close> by \<open>n\<close> zero matrix and \<open>mat_assign\<close> is the assignment
  \<open>(*result)(i,j) = v\<close>, whose subscripts are \<open>long\<close> values converted to \<open>size_t\<close>:
  a negative or too large subscript is outside the matrix.
\<close>

type_synonym matrix = "prec_t list list"

definition zero_matrix :: "nat \<Rightarrow> matrix" where
  "zero_matrix n = replicate n (replicate n 0)"

definition mat_at :: "matrix \<Rightarrow> nat \<Rightarrow> nat \<Rightarrow> prec_t" where
  "mat_at M i j = M ! i ! j"

definition mat_assign :: "matrix \<Rightarrow> int \<Rightarrow> int \<Rightarrow> prec_t \<Rightarrow> error + matrix" where
  "mat_assign M i j v =
     (if 0 \<le> i \<and> nat i < length M \<and> 0 \<le> j \<and> nat j < length (M ! nat i)
      then Inr (M[nat i := (M ! nat i)[nat j := v]])
      else Inl Out_of_range)"

section \<open>Transitions, actions and states\<close>

text \<open>
  \<open>Transition.hpp\<close>, \<open>Action.hpp\<close> and \<open>State.hpp\<close> are not among the sources. Every
  definition of this section is modelled from the spec's data model and from the
  contract of the state that the spec lists.
\<close>

text \<open>
  Modelled from the spec: the missing class \<open>Transition\<close>, an outcome. It is a sparse
  distribution given by parallel collections of target state id, probability and reward;
  one list element is one position of the three collections.
\<close>

type_synonym Transition = "(int \<times> prec_t \<times> prec_t) list"

text \<open>Modelled from the spec: the missing class of actions; an action owns zero or more
  outcomes.\<close>

datatype Action = Action (get_outcomes: "Transition list")

text \<open>Modelled from the spec: the missing class \<open>State\<close>; a state owns zero or more
  actions.\<close>

datatype State = State (get_actions: "Action list")

text \<open>Modelled from the spec: the target state ids of the missing class \<open>Transition\<close>.\<close>

definition get_indices :: "Transition \<Rightarrow> int list" where
  "get_indices t = map fst t"

text \<open>Modelled from the spec: the probabilities of the missing class \<open>Transition\<close>.\<close>

definition get_probabilities :: "Transition \<Rightarrow> prec_t list" where
  "get_probabilities t = map (\<lambda>e. fst (snd e)) t"

text \<open>Modelled from the spec: the rewards of the missing class \<open>Transition\<close>.\<close>

definition get_rewards :: "Transition \<Rightarrow> prec_t list" where
  "get_rewards t = map (\<lambda>e. snd (snd e)) t"

text \<open>Modelled from the spec: \<open>size()\<close> of the missing class \<open>Transition\<close>, the number of
  its entries.\<close>

definition transition_size :: "Transition \<Rightarrow> nat" where
  "transition_size t = length t"

text \<open>Modelled from the spec: the total probability weight of an outcome (missing class
  \<open>Transition\<close>).\<close>

definition sum_probabilities :: "Transition \<Rightarrow> prec_t" where
  "sum_probabilities t = sum_list (get_probabilities t)"

text \<open>Modelled from the spec: the normalization check of the missing class
  \<open>Transition\<close>; an outcome is normalized iff its probability entries sum to 1.\<close>

definition transition_is_normalized :: "Transition \<Rightarrow> bool" where
  "transition_is_normalized t = (sum_probabilities t = 1)"

text \<open>
  Modelled from the spec: \<open>normalize\<close> of the missing class \<open>Transition\<close> rescales the
  probabilities of the outcome to sum to 1. The spec leaves the result for a total weight
  of exactly zero unspecified; the model makes it the failure \<open>Zero_weight\<close>.
\<close>

definition transition_normalize :: "Transition \<Rightarrow> error + Transition" where
  "transition_normalize t =
     (if sum_probabilities t = 0 then Inl Zero_weight
      else Inr (map (\<lambda>(i, p, r). (i, p / sum_probabilities t, r)) t))"

text \<open>
  Modelled from the spec: the expected immediate reward of an outcome (missing class
  \<open>Transition\<close>), the sum of probability times reward over its entries.
\<close>

definition transition_mean_reward :: "Transition \<Rightarrow> prec_t" where
  "transition_mean_reward t = sum_list (map (\<lambda>(i, p, r). p * r) t)"

text \<open>Modelled from the spec: the default state of the missing class \<open>State\<close> owns no action.\<close>

definition default_state :: State where
  "default_state = State []"

text \<open>Modelled from the spec: the terminal check of the missing class \<open>State\<close>; a state is
  terminal iff it owns zero actions.\<close>

definition is_terminal :: "State \<Rightarrow> bool" where
  "is_terminal s = (get_actions s = [])"

text \<open>
  Modelled from the spec: the validity check of the missing class \<open>State\<close>. The action id
  indexes an existing action of the state and the outcome id indexes an existing outcome
  of that action.
\<close>

definition is_action_outcome_correct :: "State \<Rightarrow> int \<Rightarrow> int \<Rightarrow> bool" where
  "is_action_outcome_correct s a oc =
     (0 \<le> a \<and> nat a < length (get_actions s) \<and>
      0 \<le> oc \<and> nat oc < length (get_outcomes (get_actions s ! nat a)))"

text \<open>
  Modelled from the spec: \<open>mean_transition\<close> of the missing class \<open>State\<close>, the
  distribution resolved for an action and outcome pair. Resolving a pair that does not
  exist, in particular on a terminal state, is undefined (\<open>Invalid_resolution\<close>);
  resolving an outcome without target entries is a model error that surfaces at
  resolution time.
\<close>

definition mean_transition :: "State \<Rightarrow> int \<Rightarrow> int \<Rightarrow> error + Transition" where
  "mean_transition s a oc =
     (if \<not> is_action_outcome_correct s a oc then Inl Invalid_resolution
      else if get_outcomes (get_actions s ! nat a) ! nat oc = [] then Inl Model_error
      else Inr (get_outcomes (get_actions s ! nat a) ! nat oc))"

text \<open>
  Modelled from the spec: \<open>mean_reward\<close> of the missing class \<open>State\<close>, the expected
  immediate reward resolved for an action and outcome pair; it fails where the
  resolution of the pair fails.
\<close>

definition mean_reward :: "State \<Rightarrow> int \<Rightarrow> int \<Rightarrow> error + prec_t" where
  "mean_reward s a oc =
     (case mean_transition s a oc of
        Inl e \<Rightarrow> Inl e
      | Inr t \<Rightarrow> Inr (transition_mean_reward t))"

text \<open>Modelled from the spec: \<open>normalize\<close> of the missing class of actions rescales every
  outcome of the action.\<close>

definition action_normalize :: "Action \<Rightarrow> error + Action" where
  "action_normalize a =
     (case map_err transition_normalize (get_outcomes a) of
        Inl e \<Rightarrow> Inl e
      | Inr ts \<Rightarrow> Inr (Action ts))"

text \<open>Modelled from the spec: \<open>normalize\<close> of the missing class \<open>State\<close> rescales every
  outcome of every action of the state.\<close>

definition state_normalize :: "State \<Rightarrow> error + State" where
  "state_normalize s =
     (case map_err action_normalize (get_actions s) of
        Inl e \<Rightarrow> Inl e
      | Inr as \<Rightarrow> Inr (State as))"

section \<open>The state table of \<open>GRMDP\<close>\<close>

text \<open>
  \<open>create_state(stateid)\<close>: the assertion, the growth by \<open>resize\<close>, and the returned
  reference, which is modelled by the position it refers to in the new table.
\<close>

definition create_state :: "int \<Rightarrow> State list \<Rightarrow> error + (State list \<times> nat)" where
  "create_state stateid states =
     (if \<not> 0 \<le> stateid then Inl Assertion_failed
      else let states' = (if stateid \<ge> int (length states)
                          then resize default_state (nat (stateid + 1)) states
                          else states)
           in Inr (states', nat stateid))"

text \<open>\<open>create_state()\<close> without argument creates the state after the last one.\<close>

definition create_state_end :: "State list \<Rightarrow> error + (State list \<times> nat)" where
  "create_state_end states = create_state (int (length states)) states"

definition state_count :: "State list \<Rightarrow> nat" where
  "state_count states = length states"

text \<open>
  \<open>get_state(stateid)\<close>; the const and the mutable overload have the same body. The
  reference returned is read here.
\<close>

definition get_state :: "int \<Rightarrow> State list \<Rightarrow> error + State" where
  "get_state stateid states =
     (if 0 \<le> stateid \<and> nat stateid < state_count states
      then Inr (states ! nat stateid)
      else Inl Assertion_failed)"

text \<open>\<open>is_normalized()\<close>: three nested loops that leave with false at the first outcome
  that is not normalized.\<close>

definition is_normalized :: "State list \<Rightarrow> bool" where
  "is_normalized states =
     list_all (\<lambda>s. list_all (\<lambda>a. list_all transition_is_normalized (get_outcomes a))
                             (get_actions s)) states"

text \<open>\<open>GRMDP::normalize()\<close> calls \<open>normalize\<close> of every state.\<close>

definition normalize_mdp :: "State list \<Rightarrow> error + State list" where
  "normalize_mdp states = map_err state_normalize states"

section \<open>Rewards and policy validation\<close>

text \<open>
  \<open>rewards_state(policy, nature)\<close>: a vector of \<open>n\<close> zeros, one slot assigned per state.
  The iterations write disjoint slots, so the parallel loop is the sequential one.
\<close>

definition rewards_state :: "State list \<Rightarrow> int list \<Rightarrow> int list \<Rightarrow> error + prec_t list" where
  "rewards_state states policy nature =
     (let n = state_count states in
      for_each [0..<n]
        (\<lambda>s rewards.
           case get_state (int s) states of
             Inl e \<Rightarrow> Inl e
           | Inr state \<Rightarrow>
               if is_terminal state then Inr (rewards[s := 0])
               else (case vector_at policy s of
                       Inl e \<Rightarrow> Inl e
                     | Inr a \<Rightarrow>
                         (case vector_at nature s of
                            Inl e \<Rightarrow> Inl e
                          | Inr oc \<Rightarrow>
                              (case mean_reward state a oc of
                                 Inl e \<Rightarrow> Inl e
                               | Inr r \<Rightarrow> Inr (rewards[s := r])))))
        (replicate n 0))"

text \<open>
  \<open>is_policy_correct(policy, natpolicy)\<close>: the loop over the indices of \<open>states\<close>, with
  its \<open>continue\<close> on terminal states and its \<open>return si\<close> at the first incorrect pair.
\<close>

primrec is_policy_correct_loop ::
  "State list \<Rightarrow> int list \<Rightarrow> int list \<Rightarrow> nat list \<Rightarrow> error + int" where
  "is_policy_correct_loop states policy natpolicy [] = Inr (- 1)"
| "is_policy_correct_loop states policy natpolicy (si # rest) =
     (if is_terminal (states ! si)
      then is_policy_correct_loop states policy natpolicy rest
      else (case vector_at policy si of
              Inl e \<Rightarrow> Inl e
            | Inr a \<Rightarrow>
                (case vector_at natpolicy si of
                   Inl e \<Rightarrow> Inl e
                 | Inr oc \<Rightarrow>
                     if \<not> is_action_outcome_correct (states ! si) a oc
                     then Inr (int si)
                     else is_policy_correct_loop states policy natpolicy rest)))"

definition is_policy_correct :: "State list \<Rightarrow> int list \<Rightarrow> int list \<Rightarrow> error + int" where
  "is_policy_correct states policy natpolicy =
     is_policy_correct_loop states policy natpolicy [0..<length states]"

section \<open>Transition matrices\<close>

text \<open>
  The expression \<open>states[s].mean_transition(policy[s],nature[s])\<close> of both builders.
\<close>

definition resolved_transition ::
  "State list \<Rightarrow> int list \<Rightarrow> int list \<Rightarrow> nat \<Rightarrow> error + Transition" where
  "resolved_transition states policy nature s =
     (case vector_at policy s of
        Inl e \<Rightarrow> Inl e
      | Inr a \<Rightarrow>
          (case vector_at nature s of
             Inl e \<Rightarrow> Inl e
           | Inr oc \<Rightarrow> mean_transition (states ! s) a oc))"

text \<open>
  \<open>transition_mat(policy, nature)\<close>: for every state the resolved transition is written
  into row \<open>s\<close>, entry by entry, by assignment. The loop body has no test for terminal
  states. The iterations write disjoint rows, so the parallel loop is the sequential one.
\<close>

definition transition_mat :: "State list \<Rightarrow> int list \<Rightarrow> int list \<Rightarrow> error + matrix" where
  "transition_mat states policy nature =
     (let n = state_count states in
      for_each [0..<n]
        (\<lambda>s result.
           case resolved_transition states policy nature s of
             Inl e \<Rightarrow> Inl e
           | Inr t \<Rightarrow>
               for_each [0..<transition_size t]
                 (\<lambda>j result.
                    mat_assign result (int s) (get_indices t ! j) (get_probabilities t ! j))
                 result)
        (zero_matrix n))"

text \<open>
  \<open>transition_mat_t(policy, nature)\<close>: the same loop with the \<open>continue\<close> on terminal
  states and with the subscripts of the assignment exchanged. The iterations write
  disjoint columns.
\<close>

definition transition_mat_t :: "State list \<Rightarrow> int list \<Rightarrow> int list \<Rightarrow> error + matrix" where
  "transition_mat_t states policy nature =
     (let n = state_count states in
      for_each [0..<n]
        (\<lambda>s result.
           if is_terminal (states ! s) then Inr result
           else
             (case resolved_transition states policy nature s of
                Inl e \<Rightarrow> Inl e
              | Inr t \<Rightarrow>
                  for_each [0..<transition_size t]
                    (\<lambda>j result.
                       mat_assign result (get_indices t ! j) (int s) (get_probabilities t ! j))
                    result))
        (zero_matrix n))"

section \<open>Occupancy frequencies\<close>

text \<open>
  Modelled from the spec: \<open>probabilities_vector(n)\<close> of the missing class \<open>Transition\<close>,
  the expansion of a sparse distribution to a dense vector of length \<open>n\<close>. Every listed
  probability is assigned to the slot of its target; a target outside the vector is a
  failure.
\<close>

definition probabilities_vector :: "nat \<Rightarrow> Transition \<Rightarrow> error + prec_t list" where
  "probabilities_vector n t =
     for_each [0..<transition_size t]
       (\<lambda>j v. if 0 \<le> get_indices t ! j \<and> nat (get_indices t ! j) < length v
              then Inr (v[nat (get_indices t ! j) := get_probabilities t ! j])
              else Inl Out_of_range)
       (replicate n 0)"

text \<open>
  The matrix operations of \<open>boost::numeric::ublas\<close> that \<open>ofreq_mat\<close> uses: the product
  of a matrix with a scalar, the identity matrix, and the sum of two matrices.
\<close>

definition mat_scale :: "prec_t \<Rightarrow> matrix \<Rightarrow> matrix" where
  "mat_scale c M = map (map (\<lambda>x. x * c)) M"

definition identity_matrix :: "nat \<Rightarrow> matrix" where
  "identity_matrix n = map (\<lambda>i. map (\<lambda>j. if i = j then 1 else 0) [0..<n]) [0..<n]"

definition mat_add :: "matrix \<Rightarrow> matrix \<Rightarrow> matrix" where
  "mat_add A B = map2 (map2 (+)) A B"

text \<open>
  An equation of a linear system: the coefficients of one row and its right-hand side.
\<close>

type_synonym equation = "prec_t list \<times> prec_t"

definition dot :: "prec_t list \<Rightarrow> prec_t list \<Rightarrow> prec_t" where
  "dot u v = sum_list (map2 (*) u v)"

text \<open>
  Modelled from the spec: the calls \<open>lu_factorize\<close> and \<open>lu_substitute\<close> of
  \<open>boost::numeric::ublas\<close>, which are not among the sources, solve \<open>A x = b\<close> by direct
  factorization with pivoting. The model is elimination with row pivoting on the
  equations, over the real numbers: the pivot of a column is a row whose leading
  coefficient is largest in absolute value, the pivot row is subtracted from the other
  rows, the smaller system is solved, and the first unknown is obtained by substitution.
  A column without a pivot other than zero is the failure \<open>Singular\<close>; a matrix that is
  not square of the size of the right-hand side is outside the bounds.
\<close>

primrec select_pivot :: "equation \<Rightarrow> equation list \<Rightarrow> equation \<times> equation list" where
  "select_pivot p [] = (p, [])"
| "select_pivot p (r # rs) =
     (if \<bar>hd (fst p)\<bar> < \<bar>hd (fst r)\<bar>
      then (case select_pivot r rs of (q, rest) \<Rightarrow> (q, p # rest))
      else (case select_pivot p rs of (q, rest) \<Rightarrow> (q, r # rest)))"

definition eliminate :: "equation \<Rightarrow> equation \<Rightarrow> equation" where
  "eliminate p r =
     (let f = hd (fst r) / hd (fst p)
      in (map2 (\<lambda>a c. a - f * c) (tl (fst r)) (tl (fst p)), snd r - f * snd p))"

primrec solve_rows :: "nat \<Rightarrow> equation list \<Rightarrow> error + prec_t list" where
  "solve_rows 0 rows = Inr []"
| "solve_rows (Suc n) rows =
     (case rows of
        [] \<Rightarrow> Inl Out_of_range
      | r # rs \<Rightarrow>
          (case select_pivot r rs of
             (p, rest) \<Rightarrow>
               if hd (fst p) = 0 then Inl Singular
               else (case solve_rows n (map (eliminate p) rest) of
                       Inl e \<Rightarrow> Inl e
                     | Inr xs \<Rightarrow> Inr ((snd p - dot (tl (fst p)) xs) / hd (fst p) # xs))))"

definition lu_solve :: "matrix \<Rightarrow> prec_t list \<Rightarrow> error + prec_t list" where
  "lu_solve A b =
     (if length A = length b \<and> list_all (\<lambda>row. length row = length b) A
      then solve_rows (length b) (zip A b)
      else Inl Out_of_range)"

text \<open>
  \<open>ofreq_mat(init, discount, policy, nature)\<close>: the dense initial vector, the transposed
  transition matrix multiplied by \<open>-discount\<close>, the identity matrix added to it, and
  the solution of the system, which is returned.
\<close>

definition ofreq_mat ::
  "State list \<Rightarrow> Transition \<Rightarrow> prec_t \<Rightarrow> int list \<Rightarrow> int list \<Rightarrow> error + prec_t list" where
  "ofreq_mat states init discount policy nature =
     (let n = state_count states in
      case probabilities_vector n init of
        Inl e \<Rightarrow> Inl e
      | Inr initial_vec \<Rightarrow>
          (case transition_mat_t states policy nature of
             Inl e \<Rightarrow> Inl e
           | Inr t_mat \<Rightarrow>
               lu_solve (mat_add (mat_scale (- discount) t_mat) (identity_matrix n))
                 initial_vec))"

section \<open>Notions used in the statements\<close>

text \<open>
  A policy pair is incorrect at a state id when the state exists, is not terminal, and
  rejects the pair chosen for it.
\<close>

definition incorrect_at :: "State list \<Rightarrow> int list \<Rightarrow> int list \<Rightarrow> nat \<Rightarrow> bool" where
  "incorrect_at states policy natpolicy s =
     (s < length states \<and> \<not> is_terminal (states ! s) \<and>
      \<not> is_action_outcome_correct (states ! s) (policy ! s) (natpolicy ! s))"

text \<open>
  The spec's data model requires every existing outcome to have at least one target
  entry; a table is well formed when it does.
\<close>

definition well_formed :: "State list \<Rightarrow> bool" where
  "well_formed states =
     list_all (\<lambda>s. list_all (\<lambda>a. list_all (\<lambda>t. t \<noteq> []) (get_outcomes a))
                             (get_actions s)) states"

text \<open>Every outcome of the table has a total probability weight other than zero.\<close>

definition nonzero_weights :: "State list \<Rightarrow> bool" where
  "nonzero_weights states =
     list_all (\<lambda>s. list_all (\<lambda>a. list_all (\<lambda>t. sum_probabilities t \<noteq> 0) (get_outcomes a))
                             (get_actions s)) states"

text \<open>
  The probability of the last entry of a transition that lists target \<open>k\<close>, if any, and
  the matrix entry it leaves behind: assignments of later entries overwrite earlier ones.
\<close>

fun last_probability :: "Transition \<Rightarrow> int \<Rightarrow> prec_t option" where
  "last_probability [] k = None"
| "last_probability (e # t) k =
     (case last_probability t k of
        Some q \<Rightarrow> Some q
      | None \<Rightarrow> if fst e = k then Some (fst (snd e)) else None)"

definition entry_of :: "Transition \<Rightarrow> int \<Rightarrow> prec_t" where
  "entry_of t k = (case last_probability t k of None \<Rightarrow> 0 | Some p \<Rightarrow> p)"

text \<open>Every target state id listed by an outcome of the table is the id of a state of the
  table.\<close>

definition targets_exist :: "State list \<Rightarrow> bool" where
  "targets_exist states =
     list_all (\<lambda>s. list_all (\<lambda>a. list_all (\<lambda>t. list_all (\<lambda>e. 0 \<le> fst e \<and> fst e < int (length states)) t)
                                      (get_outcomes a))
                             (get_actions s)) states"

text \<open>
  Row \<open>i\<close> of the product of \<open>I - discount * Pt\<close> with a vector \<open>x\<close>, for an \<open>n\<close> by
  \<open>n\<close> matrix \<open>Pt\<close>; and the system is nonsingular when only the zero vector is sent to
  zero.
\<close>

definition system_row :: "matrix \<Rightarrow> prec_t \<Rightarrow> nat \<Rightarrow> prec_t list \<Rightarrow> nat \<Rightarrow> prec_t" where
  "system_row Pt discount n x i =
     (\<Sum>j < n. ((if i = j then 1 else 0) - discount * mat_at Pt i j) * x ! j)"

definition nonsingular :: "matrix \<Rightarrow> prec_t \<Rightarrow> nat \<Rightarrow> bool" where
  "nonsingular Pt discount n =
     (\<forall>y. length y = n \<longrightarrow> (\<forall>i < n. system_row Pt discount n y i = 0) \<longrightarrow>
          (\<forall>j < n. y ! j = 0))"

text \<open>An \<open>n\<close> by \<open>n\<close> matrix.\<close>

definition square :: "nat \<Rightarrow> matrix \<Rightarrow> bool" where
  "square n M = (length M = n \<and> (\<forall>i < n. length (M ! i) = n))"

text \<open>
  Example tables. \<open>ex_states\<close> is the three-state example of the spec: action 0
  leads every state to state 1, action 1 leads state 0 to state 1 and states 1 and 2 to
  state 2. The other tables have an outcome that lists target 0 twice, a state that
  leads to a terminal state, two states that lead to each other, and an outcome whose
  weights do not sum to one next to a terminal state.
\<close>

definition ex_states :: "State list" where
  "ex_states =
     [State [Action [[(1, 1, 0)]], Action [[(1, 1, 0)]]],
      State [Action [[(1, 1, 1)]], Action [[(2, 1, 0)]]],
      State [Action [[(1, 1, 1)]], Action [[(2, 1, 11/10)]]]]"

definition dup_states :: "State list" where
  "dup_states = [State [Action [[(0, 1/4, 0), (0, 1/2, 0)]]]]"

definition absorbing_states :: "State list" where
  "absorbing_states = [State [Action [[(1, 1, 0)]]], State []]"

definition chain_states :: "State list" where
  "chain_states = [State [Action [[(1, 1, 0)]]], State [Action [[(0, 1/2, 1), (1, 1/2, 2)]]]]"

definition skewed_states :: "State list" where
  "skewed_states = [State [Action [[(0, 1, 0), (1, 3, 5)]], Action [[(1, 2, 1)]]], State []]"

section \<open>Loops\<close>

lemma for_each_append:
  "for_each (xs @ ys) body a =
     (case for_each xs body a of Inl e \<Rightarrow> Inl e | Inr a' \<Rightarrow> for_each ys body a')"
  by (induction xs arbitrary: a) (auto split: sum.splits)

lemma for_each_upt_Suc:
  "for_each [0..<Suc m] body a =
     (case for_each [0..<m] body a of Inl e \<Rightarrow> Inl e | Inr a' \<Rightarrow> body m a')"
  by (simp add: for_each_append split: sum.splits)

lemma for_each_total_aux:
  assumes "xs = pre @ ys" and "I pre x"
    and step: "\<And>pre i post x. xs = pre @ i # post \<Longrightarrow> I pre x \<Longrightarrow> \<exists>y. body i x = Inr y \<and> I (pre @ [i]) y"
  shows "\<exists>b. for_each ys body x = Inr b \<and> I xs b"
  using assms(1-2)
proof (induction ys arbitrary: pre x)
  case Nil
  then show ?case by simp
next
  case (Cons i ys)
  from step[OF Cons.prems(1) Cons.prems(2)] obtain y where y: "body i x = Inr y" and Iy: "I (pre @ [i]) y"
    by blast
  from Cons.IH[OF _ Iy] Cons.prems(1) obtain b where "for_each ys body y = Inr b" "I xs b" by auto
  with y show ?case by simp
qed

lemma for_each_total:
  assumes "I [] a"
    and "\<And>pre i post x. xs = pre @ i # post \<Longrightarrow> I pre x \<Longrightarrow> \<exists>y. body i x = Inr y \<and> I (pre @ [i]) y"
  shows "\<exists>b. for_each xs body a = Inr b \<and> I xs b"
  using for_each_total_aux[where I=I and pre="[]", OF _ assms(1)] assms(2) by simp

lemma upt_split_at: "s < n \<Longrightarrow> [0..<n] = [0..<s] @ s # [Suc s..<n]"
  by (metis less_imp_le_nat upt_add_eq_append upt_conv_Cons le0 le_add_diff_inverse plus_nat.add_0)

lemmas eval_defs = transition_mat_def transition_mat_t_def state_count_def resolved_transition_def
  vector_at_def mean_transition_def is_action_outcome_correct_def transition_size_def
  get_indices_def get_probabilities_def mat_assign_def zero_matrix_def is_terminal_def
  is_policy_correct_def mat_at_def

section \<open>The state table: creation and access\<close>

lemma length_resize: "length (resize d n v) = n"
  by (simp add: resize_def)

lemma nth_resize_old: "i < length v \<Longrightarrow> i < n \<Longrightarrow> resize d n v ! i = v ! i"
  by (simp add: resize_def nth_append)

lemma nth_resize_new: "length v \<le> i \<Longrightarrow> i < n \<Longrightarrow> resize d n v ! i = d"
  by (simp add: resize_def nth_append)

text \<open>
  Claim C7. For every non-negative id, \<open>create_state(id)\<close> returns; the new state count is
  the maximum of the old count and \<open>id + 1\<close>; every state that existed is unchanged; every
  new slot, the gap slots below \<open>id\<close> included, holds the default state, which is terminal
  and owns no action; and the reference returned is to position \<open>id\<close> of the new table.
\<close>

theorem create_state_grows:
  assumes "0 \<le> stateid"
  shows "\<exists>states'. create_state stateid states = Inr (states', nat stateid) \<and>
           state_count states' = max (state_count states) (nat stateid + 1) \<and>
           (\<forall>i < state_count states. states' ! i = states ! i) \<and>
           (\<forall>i. state_count states \<le> i \<and> i < state_count states' \<longrightarrow>
                states' ! i = default_state \<and> is_terminal (states' ! i) \<and>
                get_actions (states' ! i) = []) \<and>
           nat stateid < state_count states'"
proof (cases "int (length states) \<le> stateid")
  case True
  let ?n = "nat (stateid + 1)"
  from True assms have grow: "length states < ?n" by linarith
  have res: "create_state stateid states = Inr (resize default_state ?n states, nat stateid)"
    using True assms by (simp add: create_state_def)
  have cnt: "state_count (resize default_state ?n states) = max (state_count states) (nat stateid + 1)"
    using grow assms by (simp add: state_count_def length_resize max_def nat_add_distrib)
  have old: "\<forall>i < state_count states. resize default_state ?n states ! i = states ! i"
    using grow by (simp add: state_count_def nth_resize_old)
  have new: "\<forall>i. state_count states \<le> i \<and> i < state_count (resize default_state ?n states) \<longrightarrow>
      resize default_state ?n states ! i = default_state \<and>
      is_terminal (resize default_state ?n states ! i) \<and>
      get_actions (resize default_state ?n states ! i) = []"
    by (simp add: state_count_def length_resize nth_resize_new default_state_def is_terminal_def)
  have pos: "nat stateid < state_count (resize default_state ?n states)"
    using assms by (simp add: state_count_def length_resize)
  from res cnt old new pos show ?thesis by blast
next
  case False
  then have small: "nat stateid < length states" using assms by linarith
  have res: "create_state stateid states = Inr (states, nat stateid)"
    using False assms by (simp add: create_state_def)
  have cnt: "state_count states = max (state_count states) (nat stateid + 1)"
    using small by (simp add: state_count_def max_def)
  from res cnt small show ?thesis by (auto simp: state_count_def)
qed

theorem create_state_grows_witness:
  "(0::int) \<le> 3 \<and>
   create_state 3 [State [Action [[(0, 1, 0)]]]] =
     Inr ([State [Action [[(0, 1, 0)]]], State [], State [], State []], 3)"
proof -
  have h: "(0::int) \<le> 3" by simp
  from create_state_grows [OF h, of "[State [Action [[(0, 1, 0)]]]]"]
  show ?thesis
    by (simp add: create_state_def resize_def default_state_def eval_nat_numeral)
qed

text \<open>
  Claim C8. \<open>get_state(id)\<close> with a negative id, or an id not less than the state count,
  fails at its assertion; with an id in range it returns the state stored at position
  \<open>id\<close>.
\<close>

theorem get_state_checked:
  "get_state stateid states =
     (if stateid < 0 \<or> int (state_count states) \<le> stateid
      then Inl Assertion_failed
      else Inr (states ! nat stateid))"
  by (auto simp: get_state_def)

theorem get_state_checked_witness:
  "get_state 1 ex_states = Inr (State [Action [[(1, 1, 1)]], Action [[(2, 1, 0)]]]) \<and>
   get_state 3 ex_states = Inl Assertion_failed \<and>
   get_state (- 1) ex_states = Inl Assertion_failed"
  using get_state_checked [of 1 ex_states] get_state_checked [of 3 ex_states]
    get_state_checked [of "- 1" ex_states]
  by (simp add: state_count_def ex_states_def)

text \<open>\<open>create_state()\<close> appends one default state and refers to it.\<close>

lemma create_state_end_appends:
  "create_state_end states = Inr (states @ [default_state], length states)"
proof -
  have "nat (int (length states) + 1) = Suc (length states)" by simp
  then show ?thesis
    by (simp add: create_state_end_def create_state_def resize_def)
qed

section \<open>Policy validation\<close>

lemma loop_all_correct:
  assumes "\<forall>s \<in> set ss. \<not> incorrect_at states policy natpolicy s"
    and "\<forall>s \<in> set ss. s < length states \<and> s < length policy \<and> s < length natpolicy"
  shows "is_policy_correct_loop states policy natpolicy ss = Inr (- 1)"
  using assms by (induction ss) (auto simp: incorrect_at_def vector_at_def)

lemma loop_first_incorrect:
  assumes "\<forall>s \<in> set pre. \<not> incorrect_at states policy natpolicy s"
    and "\<forall>s \<in> set pre. s < length states \<and> s < length policy \<and> s < length natpolicy"
    and "incorrect_at states policy natpolicy s" and "s < length policy" and "s < length natpolicy"
  shows "is_policy_correct_loop states policy natpolicy (pre @ s # post) = Inr (int s)"
  using assms by (induction pre) (auto simp: incorrect_at_def vector_at_def)

text \<open>
  Claim C6. For a policy pair that has an entry for every state id,
  \<open>is_policy_correct\<close> returns: either the sentinel \<open>-1\<close>, and then no state is
  incorrect, or the smallest id of a state that is not terminal and rejects its pair.
  The scan stops there: a table that agrees with this one up to that id gives the same
  answer, whatever follows.
\<close>

theorem is_policy_correct_first:
  assumes lp: "length states \<le> length policy" and ln: "length states \<le> length natpolicy"
  shows "\<exists>r. is_policy_correct states policy natpolicy = Inr r \<and>
           ((r = - 1 \<and> (\<forall>s. \<not> incorrect_at states policy natpolicy s)) \<or>
            (0 \<le> r \<and> incorrect_at states policy natpolicy (nat r) \<and>
             (\<forall>s < nat r. \<not> incorrect_at states policy natpolicy s) \<and>
             (\<forall>states2. take (Suc (nat r)) states2 = take (Suc (nat r)) states \<longrightarrow>
                  is_policy_correct states2 policy natpolicy = Inr r)))"
proof (cases "\<exists>s. incorrect_at states policy natpolicy s")
  case False
  then have "is_policy_correct states policy natpolicy = Inr (- 1)"
    unfolding is_policy_correct_def using lp ln
    by (intro loop_all_correct) auto
  with False show ?thesis by simp
next
  case True
  then obtain s where bad: "incorrect_at states policy natpolicy s"
    and least: "\<forall>s' < s. \<not> incorrect_at states policy natpolicy s'"
    using exists_least_iff[of "incorrect_at states policy natpolicy"] by blast
  from bad have sn: "s < length states" by (simp add: incorrect_at_def)
  have stop: "is_policy_correct states2 policy natpolicy = Inr (int s)"
    if eq: "take (Suc s) states2 = take (Suc s) states" for states2
  proof -
    have len2: "s < length states2"
    proof (rule ccontr)
      assume "\<not> s < length states2"
      then have "length (take (Suc s) states2) \<le> s" by simp
      moreover have "length (take (Suc s) states) = Suc s" using sn by simp
      ultimately show False using eq by simp
    qed
    have same: "states2 ! i = states ! i" if "i \<le> s" for i
      using that eq by (metis le_imp_less_Suc nth_take)
    have bad2: "incorrect_at states2 policy natpolicy s"
      using bad len2 same[of s] by (simp add: incorrect_at_def)
    have ok2: "\<forall>i \<in> set [0..<s]. \<not> incorrect_at states2 policy natpolicy i"
      using least same sn by (auto simp: incorrect_at_def)
    have bnd: "\<forall>i \<in> set [0..<s]. i < length states2 \<and> i < length policy \<and> i < length natpolicy"
      using len2 sn lp ln by auto
    show ?thesis
      unfolding is_policy_correct_def upt_split_at[OF len2]
      using loop_first_incorrect[OF ok2 bnd bad2] sn lp ln by simp
  qed
  from stop[of states] have "is_policy_correct states policy natpolicy = Inr (int s)" by simp
  with bad least stop show ?thesis by simp
qed

theorem is_policy_correct_first_witness:
  "length ex_states \<le> length [5, 0, 0 :: int] \<and>
   length ex_states \<le> length [0, 0, 0 :: int] \<and>
   is_policy_correct ex_states [5, 0, 0] [0, 0, 0] = Inr 0 \<and>
   incorrect_at ex_states [5, 0, 0] [0, 0, 0] 0 \<and>
   is_policy_correct ex_states [0, 0, 0] [0, 0, 0] = Inr (- 1) \<and>
   (\<forall>s. \<not> incorrect_at ex_states [0, 0, 0] [0, 0, 0] s)"
proof -
  have l: "length ex_states \<le> length [5, 0, 0 :: int]" "length ex_states \<le> length [0, 0, 0 :: int]"
    by (simp_all add: ex_states_def)
  have bad: "is_policy_correct ex_states [5, 0, 0] [0, 0, 0] = Inr 0"
    by (simp add: eval_defs ex_states_def)
  have good: "is_policy_correct ex_states [0, 0, 0] [0, 0, 0] = Inr (- 1)"
    by (simp add: eval_defs ex_states_def)
  from is_policy_correct_first [OF l(1) l(2)] is_policy_correct_first [OF l(2) l(2)] l bad good
  show ?thesis by simp
qed

section \<open>Rewards\<close>

lemma loop_correct_D:
  assumes "is_policy_correct_loop states policy natpolicy ss = Inr (- 1)"
    and "s \<in> set ss" and "\<not> is_terminal (states ! s)"
  shows "s < length policy \<and> s < length natpolicy \<and>
         is_action_outcome_correct (states ! s) (policy ! s) (natpolicy ! s)"
  using assms
  by (induction ss) (auto simp: vector_at_def split: if_splits sum.splits)

lemma is_policy_correct_D:
  assumes "is_policy_correct states policy natpolicy = Inr (- 1)"
    and "s < length states" and "\<not> is_terminal (states ! s)"
  shows "s < length policy \<and> s < length natpolicy \<and>
         is_action_outcome_correct (states ! s) (policy ! s) (natpolicy ! s)"
  using loop_correct_D[of states policy natpolicy "[0..<length states]" s] assms
  by (simp add: is_policy_correct_def)

lemma well_formed_D:
  assumes "well_formed states" and "s < length states"
    and "is_action_outcome_correct (states ! s) a oc"
  shows "get_outcomes (get_actions (states ! s) ! nat a) ! nat oc \<noteq> []"
  using assms
  by (simp add: well_formed_def is_action_outcome_correct_def list_all_length)

lemma mean_transition_resolves:
  assumes "well_formed states" and "s < length states"
    and "is_action_outcome_correct (states ! s) a oc"
  shows "\<exists>t. mean_transition (states ! s) a oc = Inr t \<and> t \<noteq> []"
  using well_formed_D[OF assms] assms(3) by (simp add: mean_transition_def)

text \<open>
  Claim C5. For a well-formed table and a correct policy pair, \<open>rewards_state\<close> returns
  a vector with one entry per state: 0 for a terminal state, and otherwise the value that
  \<open>mean_reward\<close> resolves for the pair chosen at that state.
\<close>

theorem rewards_state_entries:
  assumes correct: "is_policy_correct states policy nature = Inr (- 1)"
    and wf: "well_formed states"
  shows "\<exists>rewards. rewards_state states policy nature = Inr rewards \<and>
           length rewards = state_count states \<and>
           (\<forall>s < state_count states.
              if is_terminal (states ! s) then rewards ! s = 0
              else mean_reward (states ! s) (policy ! s) (nature ! s) = Inr (rewards ! s))"
proof -
  let ?n = "length states"
  let ?ok = "\<lambda>rewards s. if is_terminal (states ! s) then rewards ! s = 0
              else mean_reward (states ! s) (policy ! s) (nature ! s) = Inr (rewards ! s)"
  let ?I = "\<lambda>pre rewards. length rewards = ?n \<and> (\<forall>s \<in> set pre. ?ok rewards s)"
  let ?body = "(\<lambda>s rewards.
           case get_state (int s) states of
             Inl e \<Rightarrow> Inl e
           | Inr state \<Rightarrow>
               if is_terminal state then Inr (rewards[s := 0])
               else (case vector_at policy s of
                       Inl e \<Rightarrow> Inl e
                     | Inr a \<Rightarrow>
                         (case vector_at nature s of
                            Inl e \<Rightarrow> Inl e
                          | Inr oc \<Rightarrow>
                              (case mean_reward state a oc of
                                 Inl e \<Rightarrow> Inl e
                               | Inr r \<Rightarrow> Inr (rewards[s := r])))))"
  have step: "\<exists>y. ?body i x = Inr y \<and> ?I (pre @ [i]) y"
    if split: "[0..<?n] = pre @ i # post" and inv: "?I pre x" for pre i post x
  proof -
    have "distinct (pre @ i # post)" using split by (metis distinct_upt)
    then have fresh: "i \<notin> set pre" by simp
    have "i \<in> set [0..<?n]" using split by simp
    then have i: "i < ?n" by simp
    then have gs: "get_state (int i) states = Inr (states ! i)"
      by (simp add: get_state_def state_count_def)
    show ?thesis
    proof (cases "is_terminal (states ! i)")
      case True
      then have "?body i x = Inr (x[i := 0])" using gs by simp
      moreover have "?I (pre @ [i]) (x[i := 0])"
        using inv fresh i True by (auto simp: nth_list_update)
      ultimately show ?thesis by blast
    next
      case False
      from is_policy_correct_D[OF correct i False]
      have ip: "i < length policy" and inn: "i < length nature"
        and ok: "is_action_outcome_correct (states ! i) (policy ! i) (nature ! i)" by auto
      from mean_transition_resolves[OF wf i ok] obtain t
        where t: "mean_transition (states ! i) (policy ! i) (nature ! i) = Inr t" by blast
      then have mr: "mean_reward (states ! i) (policy ! i) (nature ! i) = Inr (transition_mean_reward t)"
        by (simp add: mean_reward_def)
      have "?body i x = Inr (x[i := transition_mean_reward t])"
        using gs False ip inn mr by (simp add: vector_at_def)
      moreover have "?I (pre @ [i]) (x[i := transition_mean_reward t])"
        using inv fresh i False mr by (auto simp: nth_list_update)
      ultimately show ?thesis by blast
    qed
  qed
  have "\<exists>b. for_each [0..<?n] ?body (replicate ?n 0) = Inr b \<and> ?I [0..<?n] b"
    by (rule for_each_total[where I = ?I]) (use step in auto)
  then show ?thesis
    by (auto simp: rewards_state_def state_count_def Let_def)
qed

theorem rewards_state_entries_witness:
  "is_policy_correct (ex_states @ [State []]) [0, 0, 1, 7] [0, 0, 0, 7] = Inr (- 1) \<and>
   well_formed (ex_states @ [State []]) \<and>
   rewards_state (ex_states @ [State []]) [0, 0, 1, 7] [0, 0, 0, 7] = Inr [0, 1, 11/10, 0] \<and>
   (\<exists>rewards. rewards_state (ex_states @ [State []]) [0, 0, 1, 7] [0, 0, 0, 7] = Inr rewards \<and>
      length rewards = state_count (ex_states @ [State []]) \<and>
      (\<forall>s < state_count (ex_states @ [State []]).
         if is_terminal ((ex_states @ [State []]) ! s) then rewards ! s = 0
         else mean_reward ((ex_states @ [State []]) ! s) ([0, 0, 1, 7] ! s) ([0, 0, 0, 7] ! s) =
              Inr (rewards ! s)))"
proof -
  have h1: "is_policy_correct (ex_states @ [State []]) [0, 0, 1, 7] [0, 0, 0, 7] = Inr (- 1)"
    by (simp add: eval_defs ex_states_def)
  have h2: "well_formed (ex_states @ [State []])"
    by (simp add: well_formed_def ex_states_def)
  have e: "rewards_state (ex_states @ [State []]) [0, 0, 1, 7] [0, 0, 0, 7] = Inr [0, 1, 11/10, 0]"
    by (simp add: eval_defs rewards_state_def get_state_def mean_reward_def
        transition_mean_reward_def ex_states_def)
  from rewards_state_entries [OF h1 h2] h1 h2 e
  show ?thesis by blast
qed

section \<open>Transition matrices\<close>

lemma last_probability_snoc:
  "last_probability (t @ [e]) k =
     (if fst e = k then Some (fst (snd e)) else last_probability t k)"
  by (induction t) (auto split: option.splits)

lemma last_probability_None: "last_probability t k = None \<longleftrightarrow> k \<notin> fst ` set t"
  by (induction t) (auto split: option.splits)

lemma last_probability_last:
  assumes "j < length t" and "fst (t ! j) = k"
    and "\<forall>j'. j < j' \<and> j' < length t \<longrightarrow> fst (t ! j') \<noteq> k"
  shows "last_probability t k = Some (fst (snd (t ! j)))"
  using assms
proof (induction t rule: rev_induct)
  case Nil
  then show ?case by simp
next
  case (snoc e t)
  show ?case
  proof (cases "j = length t")
    case True
    with snoc.prems show ?thesis by (simp add: last_probability_snoc)
  next
    case False
    with snoc.prems(1) have j: "j < length t" by simp
    from snoc.prems(3)[rule_format, of "length t"] j have ne: "fst e \<noteq> k" by simp
    have "last_probability t k = Some (fst (snd (t ! j)))"
    proof (rule snoc.IH[OF j])
      show "fst (t ! j) = k" using snoc.prems(2) j by (simp add: nth_append)
      show "\<forall>j'. j < j' \<and> j' < length t \<longrightarrow> fst (t ! j') \<noteq> k"
      proof (intro allI impI)
        fix j' assume a: "j < j' \<and> j' < length t"
        then have "fst ((t @ [e]) ! j') \<noteq> k" using snoc.prems(3) by simp
        with a show "fst (t ! j') \<noteq> k" by (simp add: nth_append)
      qed
    qed
    with ne j show ?thesis by (simp add: last_probability_snoc nth_append)
  qed
qed

lemma square_zero_matrix: "square n (zero_matrix n)"
  by (simp add: square_def zero_matrix_def)

lemma zero_matrix_nth: "a < n \<Longrightarrow> b < n \<Longrightarrow> zero_matrix n ! a ! b = 0"
  by (simp add: zero_matrix_def)

lemma mat_assign_D:
  assumes "mat_assign M i j v = Inr M'" and "square n M"
  shows "square n M' \<and> 0 \<le> i \<and> i < int n \<and> 0 \<le> j \<and> j < int n \<and>
         (\<forall>a < n. \<forall>b < n. M' ! a ! b = (if a = nat i \<and> b = nat j then v else M ! a ! b))"
proof -
  from assms(1) have i: "0 \<le> i" "nat i < length M" and j: "0 \<le> j" "nat j < length (M ! nat i)"
    and M': "M' = M[nat i := (M ! nat i)[nat j := v]]"
    by (auto simp: mat_assign_def split: if_splits)
  from i j assms(2) have in': "nat i < n" "nat j < n" by (auto simp: square_def)
  have sq: "square n M'" using assms(2) in' by (auto simp: M' square_def nth_list_update)
  have "\<forall>a < n. \<forall>b < n. M' ! a ! b = (if a = nat i \<and> b = nat j then v else M ! a ! b)"
    using assms(2) in' by (auto simp: M' square_def nth_list_update)
  with sq i j in' show ?thesis by auto
qed

lemma assign_row_loop:
  assumes "for_each [0..<m]
             (\<lambda>j result. mat_assign result (int s) (get_indices t ! j) (get_probabilities t ! j))
             M0 = Inr M"
    and "square n M0" and "m \<le> length t"
  shows "square n M \<and>
         (\<forall>a < n. \<forall>b < n. M ! a ! b =
            (if a = s then (case last_probability (take m t) (int b) of
                              None \<Rightarrow> M0 ! a ! b | Some p \<Rightarrow> p)
             else M0 ! a ! b)) \<and>
         (\<forall>e \<in> set (take m t). 0 \<le> fst e \<and> fst e < int n)"
  using assms(1,3)
proof (induction m arbitrary: M)
  case 0
  then show ?case using assms(2) by simp
next
  case (Suc m)
  let ?body = "\<lambda>j result. mat_assign result (int s) (get_indices t ! j) (get_probabilities t ! j)"
  from Suc.prems(1)[unfolded for_each_upt_Suc] obtain M1 where M1: "for_each [0..<m] ?body M0 = Inr M1"
    and last: "?body m M1 = Inr M"
    by (auto split: sum.splits)
  from Suc.prems(2) have m: "m < length t" by simp
  from Suc.IH[OF M1] m have sq1: "square n M1"
    and ent1: "\<forall>a < n. \<forall>b < n. M1 ! a ! b =
            (if a = s then (case last_probability (take m t) (int b) of
                              None \<Rightarrow> M0 ! a ! b | Some p \<Rightarrow> p)
             else M0 ! a ! b)"
    and rng1: "\<forall>e \<in> set (take m t). 0 \<le> fst e \<and> fst e < int n" by auto
  have idx: "get_indices t ! m = fst (t ! m)" and prb: "get_probabilities t ! m = fst (snd (t ! m))"
    using m by (simp_all add: get_indices_def get_probabilities_def)
  from mat_assign_D[OF last sq1] have sq: "square n M"
    and r: "0 \<le> fst (t ! m)" "fst (t ! m) < int n"
    and ent: "\<forall>a < n. \<forall>b < n. M ! a ! b =
        (if a = nat (int s) \<and> b = nat (fst (t ! m)) then fst (snd (t ! m)) else M1 ! a ! b)"
    by (auto simp: idx prb)
  have tk: "take (Suc m) t = take m t @ [t ! m]" using m by (simp add: take_Suc_conv_app_nth)
  have "\<forall>a < n. \<forall>b < n. M ! a ! b =
            (if a = s then (case last_probability (take (Suc m) t) (int b) of
                              None \<Rightarrow> M0 ! a ! b | Some p \<Rightarrow> p)
             else M0 ! a ! b)"
    using ent ent1 r by (auto simp: tk last_probability_snoc)
  moreover have "\<forall>e \<in> set (take (Suc m) t). 0 \<le> fst e \<and> fst e < int n"
    using rng1 r by (auto simp: tk)
  ultimately show ?case using sq by blast
qed

lemma assign_column_loop:
  assumes "for_each [0..<m]
             (\<lambda>j result. mat_assign result (get_indices t ! j) (int s) (get_probabilities t ! j))
             M0 = Inr M"
    and "square n M0" and "m \<le> length t"
  shows "square n M \<and>
         (\<forall>a < n. \<forall>b < n. M ! a ! b =
            (if b = s then (case last_probability (take m t) (int a) of
                              None \<Rightarrow> M0 ! a ! b | Some p \<Rightarrow> p)
             else M0 ! a ! b)) \<and>
         (\<forall>e \<in> set (take m t). 0 \<le> fst e \<and> fst e < int n)"
  using assms(1,3)
proof (induction m arbitrary: M)
  case 0
  then show ?case using assms(2) by simp
next
  case (Suc m)
  let ?body = "\<lambda>j result. mat_assign result (get_indices t ! j) (int s) (get_probabilities t ! j)"
  from Suc.prems(1)[unfolded for_each_upt_Suc] obtain M1 where M1: "for_each [0..<m] ?body M0 = Inr M1"
    and last: "?body m M1 = Inr M"
    by (auto split: sum.splits)
  from Suc.prems(2) have m: "m < length t" by simp
  from Suc.IH[OF M1] m have sq1: "square n M1"
    and ent1: "\<forall>a < n. \<forall>b < n. M1 ! a ! b =
            (if b = s then (case last_probability (take m t) (int a) of
                              None \<Rightarrow> M0 ! a ! b | Some p \<Rightarrow> p)
             else M0 ! a ! b)"
    and rng1: "\<forall>e \<in> set (take m t). 0 \<le> fst e \<and> fst e < int n" by auto
  have idx: "get_indices t ! m = fst (t ! m)" and prb: "get_probabilities t ! m = fst (snd (t ! m))"
    using m by (simp_all add: get_indices_def get_probabilities_def)
  from mat_assign_D[OF last sq1] have sq: "square n M"
    and r: "0 \<le> fst (t ! m)" "fst (t ! m) < int n"
    and ent: "\<forall>a < n. \<forall>b < n. M ! a ! b =
        (if a = nat (fst (t ! m)) \<and> b = nat (int s) then fst (snd (t ! m)) else M1 ! a ! b)"
    by (auto simp: idx prb)
  have tk: "take (Suc m) t = take m t @ [t ! m]" using m by (simp add: take_Suc_conv_app_nth)
  have "\<forall>a < n. \<forall>b < n. M ! a ! b =
            (if b = s then (case last_probability (take (Suc m) t) (int a) of
                              None \<Rightarrow> M0 ! a ! b | Some p \<Rightarrow> p)
             else M0 ! a ! b)"
    using ent ent1 r by (auto simp: tk last_probability_snoc)
  moreover have "\<forall>e \<in> set (take (Suc m) t). 0 \<le> fst e \<and> fst e < int n"
    using rng1 r by (auto simp: tk)
  ultimately show ?case using sq by blast
qed


lemma transition_mat_loop:
  assumes "for_each [0..<m]
             (\<lambda>s result.
                case resolved_transition states policy nature s of
                  Inl e \<Rightarrow> Inl e
                | Inr t \<Rightarrow>
                    for_each [0..<transition_size t]
                      (\<lambda>j result.
                         mat_assign result (int s) (get_indices t ! j) (get_probabilities t ! j))
                      result)
             (zero_matrix n) = Inr M"
    and "m \<le> n"
  shows "square n M \<and>
         (\<forall>s < m. \<exists>t. resolved_transition states policy nature s = Inr t \<and>
                  (\<forall>e \<in> set t. 0 \<le> fst e \<and> fst e < int n) \<and>
                  (\<forall>k < n. M ! s ! k = entry_of t (int k))) \<and>
         (\<forall>s. m \<le> s \<and> s < n \<longrightarrow> (\<forall>k < n. M ! s ! k = 0))"
  using assms
proof (induction m arbitrary: M)
  case 0
  then have "M = zero_matrix n" by simp
  then show ?case by (simp add: square_zero_matrix zero_matrix_nth)
next
  case (Suc m)
  let ?inner = "\<lambda>s t. for_each [0..<transition_size t]
                      (\<lambda>j result.
                         mat_assign result (int s) (get_indices t ! j) (get_probabilities t ! j))"
  let ?body = "\<lambda>s result. case resolved_transition states policy nature s of
                  Inl e \<Rightarrow> Inl e | Inr t \<Rightarrow> ?inner s t result"
  from Suc.prems(1)[unfolded for_each_upt_Suc] obtain M1 t
    where M1: "for_each [0..<m] ?body (zero_matrix n) = Inr M1"
      and t: "resolved_transition states policy nature m = Inr t"
      and inner: "?inner m t M1 = Inr M"
    by (auto split: sum.splits)
  from Suc.prems(2) have mn: "m < n" by simp
  from Suc.IH[OF M1] mn have sq1: "square n M1"
    and done1: "\<forall>s < m. \<exists>t. resolved_transition states policy nature s = Inr t \<and>
                  (\<forall>e \<in> set t. 0 \<le> fst e \<and> fst e < int n) \<and>
                  (\<forall>k < n. M1 ! s ! k = entry_of t (int k))"
    and rest1: "\<forall>s. m \<le> s \<and> s < n \<longrightarrow> (\<forall>k < n. M1 ! s ! k = 0)" by auto
  from assign_row_loop[OF inner[unfolded transition_size_def] sq1]
  have sq: "square n M"
    and ent: "\<forall>a < n. \<forall>b < n. M ! a ! b =
            (if a = m then (case last_probability t (int b) of
                              None \<Rightarrow> M1 ! a ! b | Some p \<Rightarrow> p)
             else M1 ! a ! b)"
    and rng: "\<forall>e \<in> set t. 0 \<le> fst e \<and> fst e < int n" by auto
  have new: "\<forall>k < n. M ! m ! k = entry_of t (int k)"
    using ent rest1 mn by (auto simp: entry_of_def split: option.splits)
  have "\<forall>s < Suc m. \<exists>t. resolved_transition states policy nature s = Inr t \<and>
                  (\<forall>e \<in> set t. 0 \<le> fst e \<and> fst e < int n) \<and>
                  (\<forall>k < n. M ! s ! k = entry_of t (int k))"
  proof (intro allI impI)
    fix s assume "s < Suc m"
    then consider "s < m" | "s = m" by linarith
    then show "\<exists>t. resolved_transition states policy nature s = Inr t \<and>
                  (\<forall>e \<in> set t. 0 \<le> fst e \<and> fst e < int n) \<and>
                  (\<forall>k < n. M ! s ! k = entry_of t (int k))"
    proof cases
      case 1
      with done1 obtain u where u: "resolved_transition states policy nature s = Inr u"
        "\<forall>e \<in> set u. 0 \<le> fst e \<and> fst e < int n" "\<forall>k < n. M1 ! s ! k = entry_of u (int k)"
        by blast
      have "\<forall>k < n. M ! s ! k = M1 ! s ! k" using ent 1 mn by simp
      with u show ?thesis by simp
    next
      case 2
      with t rng new show ?thesis by simp
    qed
  qed
  moreover have "\<forall>s. Suc m \<le> s \<and> s < n \<longrightarrow> (\<forall>k < n. M ! s ! k = 0)"
    using ent rest1 by simp
  ultimately show ?case using sq by blast
qed

lemma transition_mat_entries:
  assumes "transition_mat states policy nature = Inr M"
  shows "square (state_count states) M \<and>
         (\<forall>s < state_count states.
            \<exists>t. resolved_transition states policy nature s = Inr t \<and>
                (\<forall>e \<in> set t. 0 \<le> fst e \<and> fst e < int (state_count states)) \<and>
                (\<forall>k < state_count states. M ! s ! k = entry_of t (int k)))"
  using transition_mat_loop[of "state_count states" states policy nature "state_count states" M] assms
  by (simp add: transition_mat_def Let_def)

lemma transition_mat_t_loop:
  assumes "for_each [0..<m]
             (\<lambda>s result.
                if is_terminal (states ! s) then Inr result
                else
                  (case resolved_transition states policy nature s of
                     Inl e \<Rightarrow> Inl e
                   | Inr t \<Rightarrow>
                       for_each [0..<transition_size t]
                         (\<lambda>j result.
                            mat_assign result (get_indices t ! j) (int s) (get_probabilities t ! j))
                         result))
             (zero_matrix n) = Inr M"
    and "m \<le> n"
  shows "square n M \<and>
         (\<forall>s < m. if is_terminal (states ! s) then (\<forall>k < n. M ! k ! s = 0)
                  else (\<exists>t. resolved_transition states policy nature s = Inr t \<and>
                        (\<forall>e \<in> set t. 0 \<le> fst e \<and> fst e < int n) \<and>
                        (\<forall>k < n. M ! k ! s = entry_of t (int k)))) \<and>
         (\<forall>s. m \<le> s \<and> s < n \<longrightarrow> (\<forall>k < n. M ! k ! s = 0))"
  using assms
proof (induction m arbitrary: M)
  case 0
  then have "M = zero_matrix n" by simp
  then show ?case by (simp add: square_zero_matrix zero_matrix_nth)
next
  case (Suc m)
  let ?inner = "\<lambda>s t. for_each [0..<transition_size t]
                      (\<lambda>j result.
                         mat_assign result (get_indices t ! j) (int s) (get_probabilities t ! j))"
  let ?body = "\<lambda>s result. if is_terminal (states ! s) then Inr result
                else (case resolved_transition states policy nature s of
                  Inl e \<Rightarrow> Inl e | Inr t \<Rightarrow> ?inner s t result)"
  let ?done = "\<lambda>M s. if is_terminal (states ! s) then (\<forall>k < n. M ! k ! s = 0)
                  else (\<exists>t. resolved_transition states policy nature s = Inr t \<and>
                        (\<forall>e \<in> set t. 0 \<le> fst e \<and> fst e < int n) \<and>
                        (\<forall>k < n. M ! k ! s = entry_of t (int k)))"
  from Suc.prems(1)[unfolded for_each_upt_Suc] obtain M1
    where M1: "for_each [0..<m] ?body (zero_matrix n) = Inr M1"
      and last: "?body m M1 = Inr M"
    by (auto split: sum.splits)
  from Suc.prems(2) have mn: "m < n" by simp
  from Suc.IH[OF M1] mn have sq1: "square n M1"
    and done1: "\<forall>s < m. ?done M1 s"
    and rest1: "\<forall>s. m \<le> s \<and> s < n \<longrightarrow> (\<forall>k < n. M1 ! k ! s = 0)" by auto
  have step: "square n M \<and> (\<forall>a < n. \<forall>b < n. b \<noteq> m \<longrightarrow> M ! a ! b = M1 ! a ! b) \<and> ?done M m"
  proof (cases "is_terminal (states ! m)")
    case True
    with last have "M = M1" by simp
    with sq1 rest1 mn True show ?thesis by simp
  next
    case False
    with last obtain t where t: "resolved_transition states policy nature m = Inr t"
      and inner: "?inner m t M1 = Inr M"
      by (auto split: sum.splits)
    from assign_column_loop[OF inner[unfolded transition_size_def] sq1]
    have sq: "square n M"
      and ent: "\<forall>a < n. \<forall>b < n. M ! a ! b =
            (if b = m then (case last_probability t (int a) of
                              None \<Rightarrow> M1 ! a ! b | Some p \<Rightarrow> p)
             else M1 ! a ! b)"
      and rng: "\<forall>e \<in> set t. 0 \<le> fst e \<and> fst e < int n" by auto
    have "\<forall>k < n. M ! k ! m = entry_of t (int k)"
      using ent rest1 mn by (auto simp: entry_of_def split: option.splits)
    with t rng False have "?done M m" by simp
    moreover have "\<forall>a < n. \<forall>b < n. b \<noteq> m \<longrightarrow> M ! a ! b = M1 ! a ! b" using ent by simp
    ultimately show ?thesis using sq by blast
  qed
  then have sq: "square n M"
    and other: "\<forall>a < n. \<forall>b < n. b \<noteq> m \<longrightarrow> M ! a ! b = M1 ! a ! b"
    and new: "?done M m" by blast+
  have "\<forall>s < Suc m. ?done M s"
  proof (intro allI impI)
    fix s assume "s < Suc m"
    then consider "s < m" | "s = m" by linarith
    then show "?done M s"
    proof cases
      case 1
      then have same: "\<forall>k < n. M ! k ! s = M1 ! k ! s" using other mn by simp
      from done1 1 have "?done M1 s" by blast
      with same show ?thesis by (auto split: if_splits)
    next
      case 2
      with new show ?thesis by simp
    qed
  qed
  moreover have "\<forall>s. Suc m \<le> s \<and> s < n \<longrightarrow> (\<forall>k < n. M ! k ! s = 0)"
    using other rest1 by simp
  ultimately show ?case using sq by blast
qed

lemma transition_mat_t_entries:
  assumes "transition_mat_t states policy nature = Inr M"
  shows "square (state_count states) M \<and>
         (\<forall>s < state_count states.
            if is_terminal (states ! s) then (\<forall>k < state_count states. M ! k ! s = 0)
            else (\<exists>t. resolved_transition states policy nature s = Inr t \<and>
                (\<forall>e \<in> set t. 0 \<le> fst e \<and> fst e < int (state_count states)) \<and>
                (\<forall>k < state_count states. M ! k ! s = entry_of t (int k))))"
  using transition_mat_t_loop[of "state_count states" states policy nature "state_count states" M] assms
  by (simp add: transition_mat_t_def Let_def)

lemma resolved_not_terminal:
  "resolved_transition states policy nature s = Inr t \<Longrightarrow> \<not> is_terminal (states ! s)"
  by (auto simp: resolved_transition_def mean_transition_def is_action_outcome_correct_def
      is_terminal_def split: sum.splits if_splits)

text \<open>The forward builder returns only for tables without terminal states.\<close>

lemma transition_mat_no_terminal:
  assumes "transition_mat states policy nature = Inr M" and "s < state_count states"
  shows "\<not> is_terminal (states ! s)"
  using transition_mat_entries [OF assms(1)] assms(2) resolved_not_terminal by blast

text \<open>
  When the builders return: for a correct policy pair on a well-formed table whose
  targets exist, \<open>transition_mat_t\<close> returns, and so does \<open>transition_mat\<close> if the
  table has no terminal state.
\<close>

lemma mat_assign_ok:
  assumes "square n M" and "0 \<le> i" and "i < int n" and "0 \<le> j" and "j < int n"
  shows "\<exists>M'. mat_assign M i j v = Inr M' \<and> square n M'"
proof -
  from assms have "nat i < length M" "nat j < length (M ! nat i)" by (auto simp: square_def)
  with assms(2,4) have "mat_assign M i j v = Inr (M[nat i := (M ! nat i)[nat j := v]])"
    by (simp add: mat_assign_def)
  with mat_assign_D [OF this assms(1)] show ?thesis by simp
qed

lemma assign_loop_returns:
  assumes "square n M0" and "m \<le> length t"
    and "\<forall>e \<in> set t. 0 \<le> fst e \<and> fst e < int n"
    and "\<And>j M. body j M = mat_assign M (int s) (get_indices t ! j) (get_probabilities t ! j) \<or>
                 body j M = mat_assign M (get_indices t ! j) (int s) (get_probabilities t ! j)"
    and "s < n"
  shows "\<exists>M. for_each [0..<m] body M0 = Inr M \<and> square n M"
  using assms(2)
proof (induction m)
  case 0
  then show ?case using assms(1) by simp
next
  case (Suc m)
  then obtain M1 where M1: "for_each [0..<m] body M0 = Inr M1" and sq1: "square n M1" by auto
  from Suc.prems have m: "m < length t" by simp
  then have "t ! m \<in> set t" by simp
  with assms(3) m have r: "0 \<le> get_indices t ! m" "get_indices t ! m < int n"
    by (auto simp: get_indices_def)
  from assms(4) [of m M1] mat_assign_ok [OF sq1 _ _ r] mat_assign_ok [OF sq1 r] assms(5)
  have "\<exists>M. body m M1 = Inr M \<and> square n M" by auto
  with M1 show ?case unfolding for_each_upt_Suc by auto
qed

lemma resolved_transition_returns:
  assumes correct: "is_policy_correct states policy nature = Inr (- 1)"
    and wf: "well_formed states" and ex: "targets_exist states"
    and s: "s < length states" and nt: "\<not> is_terminal (states ! s)"
  shows "\<exists>t. resolved_transition states policy nature s = Inr t \<and>
             (\<forall>e \<in> set t. 0 \<le> fst e \<and> fst e < int (length states))"
proof -
  from is_policy_correct_D [OF correct s nt]
  have ip: "s < length policy" and inn: "s < length nature"
    and ok: "is_action_outcome_correct (states ! s) (policy ! s) (nature ! s)" by auto
  from mean_transition_resolves [OF wf s ok] obtain t
    where t: "mean_transition (states ! s) (policy ! s) (nature ! s) = Inr t" by blast
  then have teq: "t = get_outcomes (get_actions (states ! s) ! nat (policy ! s)) ! nat (nature ! s)"
    by (auto simp: mean_transition_def split: if_splits)
  from ok have a: "nat (policy ! s) < length (get_actions (states ! s))"
    and oc: "nat (nature ! s) < length (get_outcomes (get_actions (states ! s) ! nat (policy ! s)))"
    by (auto simp: is_action_outcome_correct_def)
  from ex s a oc have "list_all (\<lambda>e. 0 \<le> fst e \<and> fst e < int (length states)) t"
    unfolding teq targets_exist_def list_all_length by blast
  then have "\<forall>e \<in> set t. 0 \<le> fst e \<and> fst e < int (length states)" by (simp add: list_all_iff)
  moreover have "resolved_transition states policy nature s = Inr t"
    using ip inn t by (simp add: resolved_transition_def vector_at_def)
  ultimately show ?thesis by blast
qed

lemma transition_mat_t_returns:
  assumes correct: "is_policy_correct states policy nature = Inr (- 1)"
    and wf: "well_formed states" and ex: "targets_exist states"
  shows "\<exists>M. transition_mat_t states policy nature = Inr M"
proof -
  let ?n = "length states"
  let ?body = "\<lambda>s result.
           if is_terminal (states ! s) then Inr result
           else
             (case resolved_transition states policy nature s of
                Inl e \<Rightarrow> Inl e
              | Inr t \<Rightarrow>
                  for_each [0..<transition_size t]
                    (\<lambda>j result.
                       mat_assign result (get_indices t ! j) (int s) (get_probabilities t ! j))
                    result)"
  have "\<exists>M. for_each [0..<m] ?body (zero_matrix ?n) = Inr M \<and> square ?n M" if "m \<le> ?n" for m
    using that
  proof (induction m)
    case 0
    then show ?case by (simp add: square_zero_matrix)
  next
    case (Suc m)
    then obtain M1 where M1: "for_each [0..<m] ?body (zero_matrix ?n) = Inr M1"
      and sq1: "square ?n M1" by auto
    from Suc.prems have m: "m < ?n" by simp
    have "\<exists>M. ?body m M1 = Inr M \<and> square ?n M"
    proof (cases "is_terminal (states ! m)")
      case True
      with sq1 show ?thesis by simp
    next
      case False
      from resolved_transition_returns [OF correct wf ex m False] obtain t
        where t: "resolved_transition states policy nature m = Inr t"
          and rng: "\<forall>e \<in> set t. 0 \<le> fst e \<and> fst e < int ?n" by blast
      from assign_loop_returns [OF sq1 le_refl rng _ m,
          of "\<lambda>j result. mat_assign result (get_indices t ! j) (int m) (get_probabilities t ! j)"]
      show ?thesis using False t by (simp add: transition_size_def)
    qed
    with M1 show ?case unfolding for_each_upt_Suc by auto
  qed
  from this [of ?n] show ?thesis
    by (auto simp: transition_mat_t_def state_count_def Let_def)
qed

lemma transition_mat_returns:
  assumes correct: "is_policy_correct states policy nature = Inr (- 1)"
    and wf: "well_formed states" and ex: "targets_exist states"
    and nt: "\<forall>s < length states. \<not> is_terminal (states ! s)"
  shows "\<exists>M. transition_mat states policy nature = Inr M"
proof -
  let ?n = "length states"
  let ?body = "\<lambda>s result.
           case resolved_transition states policy nature s of
             Inl e \<Rightarrow> Inl e
           | Inr t \<Rightarrow>
               for_each [0..<transition_size t]
                 (\<lambda>j result.
                    mat_assign result (int s) (get_indices t ! j) (get_probabilities t ! j))
                 result"
  have "\<exists>M. for_each [0..<m] ?body (zero_matrix ?n) = Inr M \<and> square ?n M" if "m \<le> ?n" for m
    using that
  proof (induction m)
    case 0
    then show ?case by (simp add: square_zero_matrix)
  next
    case (Suc m)
    then obtain M1 where M1: "for_each [0..<m] ?body (zero_matrix ?n) = Inr M1"
      and sq1: "square ?n M1" by auto
    from Suc.prems have m: "m < ?n" by simp
    with nt have ntm: "\<not> is_terminal (states ! m)" by simp
    from resolved_transition_returns [OF correct wf ex m ntm] obtain t
      where t: "resolved_transition states policy nature m = Inr t"
        and rng: "\<forall>e \<in> set t. 0 \<le> fst e \<and> fst e < int ?n" by blast
    from assign_loop_returns [OF sq1 le_refl rng _ m,
        of "\<lambda>j result. mat_assign result (int m) (get_indices t ! j) (get_probabilities t ! j)"]
    have "\<exists>M. ?body m M1 = Inr M \<and> square ?n M" using t by (simp add: transition_size_def)
    with M1 show ?case unfolding for_each_upt_Suc by auto
  qed
  from this [of ?n] show ?thesis
    by (auto simp: transition_mat_def state_count_def Let_def)
qed

text \<open>
  Claim C1. Whenever both builders return for the same table and policy pair, both
  matrices are \<open>n\<close> by \<open>n\<close> and entry \<open>(s', s)\<close> of the matrix of \<open>transition_mat_t\<close>
  equals entry \<open>(s, s')\<close> of the matrix of \<open>transition_mat\<close>, for all state ids
  \<open>s\<close> and \<open>s'\<close>.
\<close>

theorem transposed_is_transpose:
  assumes "transition_mat states policy nature = Inr M"
    and "transition_mat_t states policy nature = Inr Mt"
  shows "length M = state_count states \<and> length Mt = state_count states \<and>
         (\<forall>s < state_count states. \<forall>s' < state_count states.
            length (M ! s) = state_count states \<and> length (Mt ! s') = state_count states \<and>
            mat_at Mt s' s = mat_at M s s')"
proof -
  let ?n = "state_count states"
  from transition_mat_entries[OF assms(1)] have sqM: "square ?n M"
    and fw: "\<forall>s < ?n. \<exists>t. resolved_transition states policy nature s = Inr t \<and>
                (\<forall>k < ?n. M ! s ! k = entry_of t (int k))" by auto
  from transition_mat_t_entries[OF assms(2)] have sqT: "square ?n Mt"
    and tr: "\<forall>s < state_count states.
            if is_terminal (states ! s) then (\<forall>k < state_count states. Mt ! k ! s = 0)
            else (\<exists>t. resolved_transition states policy nature s = Inr t \<and>
                (\<forall>e \<in> set t. 0 \<le> fst e \<and> fst e < int (state_count states)) \<and>
                (\<forall>k < state_count states. Mt ! k ! s = entry_of t (int k)))" by auto
  have "mat_at Mt s' s = mat_at M s s'" if s: "s < ?n" and s': "s' < ?n" for s s'
  proof -
    from fw s obtain t where t: "resolved_transition states policy nature s = Inr t"
      and M: "\<forall>k < ?n. M ! s ! k = entry_of t (int k)" by blast
    from resolved_not_terminal[OF t] tr s t
    have "\<forall>k < ?n. Mt ! k ! s = entry_of t (int k)" by auto
    with M s' show ?thesis by (simp add: mat_at_def)
  qed
  with sqM sqT show ?thesis by (simp add: square_def)
qed

theorem transposed_is_transpose_witness:
  "transition_mat ex_states [0, 1, 0] [0, 0, 0] = Inr [[0, 1, 0], [0, 0, 1], [0, 1, 0]] \<and>
   transition_mat_t ex_states [0, 1, 0] [0, 0, 0] = Inr [[0, 0, 0], [1, 0, 1], [0, 1, 0]] \<and>
   mat_at [[0, 0, 0], [1, 0, 1], [0, 1, 0]] 1 0 = mat_at [[0, 1, 0], [0, 0, 1], [0, 1, 0]] 0 1 \<and>
   mat_at [[0, 0, 0], [1, 0, 1], [0, 1, 0]] 2 1 = mat_at [[0, 1, 0], [0, 0, 1], [0, 1, 0]] 1 2 \<and>
   mat_at [[0, 0, 0], [1, 0, 1], [0, 1, 0]] 0 2 = mat_at [[0, 1, 0], [0, 0, 1], [0, 1, 0]] 2 0"
proof -
  have h1: "transition_mat ex_states [0, 1, 0] [0, 0, 0] = Inr [[0, 1, 0], [0, 0, 1], [0, 1, 0]]"
    by (simp add: eval_defs ex_states_def)
  have h2: "transition_mat_t ex_states [0, 1, 0] [0, 0, 0] = Inr [[0, 0, 0], [1, 0, 1], [0, 1, 0]]"
    by (simp add: eval_defs ex_states_def)
  have n: "state_count ex_states = 3" by (simp add: state_count_def ex_states_def)
  from transposed_is_transpose [OF h1 h2]
  have t: "\<forall>s < 3. \<forall>s' < 3.
      mat_at [[0, 0, 0], [1, 0, 1], [0, 1, 0]] s' s = mat_at [[0, 1, 0], [0, 0, 1], [0, 1, 0]] s s'"
    unfolding n by blast
  from t [rule_format, of 0 1] t [rule_format, of 1 2] t [rule_format, of 2 0] h1 h2
  show ?thesis by simp
qed

text \<open>
  Claim C10. Let \<open>t\<close> be the transition resolved for state \<open>s\<close> and let \<open>j\<close> be the last
  position of \<open>t\<close> that lists target \<open>k\<close>. Then entry \<open>(s, k)\<close> of the matrix of
  \<open>transition_mat\<close> and entry \<open>(k, s)\<close> of the matrix of \<open>transition_mat_t\<close> are the
  probability listed at position \<open>j\<close>: the entries are assigned, not accumulated.
\<close>

theorem assignment_keeps_last:
  assumes s: "s < state_count states"
    and t: "resolved_transition states policy nature s = Inr t"
    and j: "j < transition_size t" and k: "get_indices t ! j = k"
    and later: "\<forall>j'. j < j' \<and> j' < transition_size t \<longrightarrow> get_indices t ! j' \<noteq> k"
  shows "(\<forall>M. transition_mat states policy nature = Inr M \<longrightarrow>
              mat_at M s (nat k) = get_probabilities t ! j) \<and>
         (\<forall>Mt. transition_mat_t states policy nature = Inr Mt \<longrightarrow>
              mat_at Mt (nat k) s = get_probabilities t ! j)"
proof -
  let ?n = "state_count states"
  from j have jl: "j < length t" by (simp add: transition_size_def)
  have fk: "fst (t ! j) = k" using k jl by (simp add: get_indices_def)
  have "\<forall>j'. j < j' \<and> j' < length t \<longrightarrow> fst (t ! j') \<noteq> k"
    using later by (simp add: transition_size_def get_indices_def)
  from last_probability_last[OF jl fk this]
  have ent: "entry_of t k = get_probabilities t ! j"
    using jl by (simp add: entry_of_def get_probabilities_def)
  have mem: "t ! j \<in> set t" using jl by simp
  have fw: "mat_at M s (nat k) = get_probabilities t ! j"
    if M: "transition_mat states policy nature = Inr M" for M
  proof -
    from transition_mat_entries[OF M] s obtain t'
      where "resolved_transition states policy nature s = Inr t'"
        and "\<forall>e \<in> set t'. 0 \<le> fst e \<and> fst e < int ?n"
        and "\<forall>k < ?n. M ! s ! k = entry_of t' (int k)" by blast
    with t have rng: "\<forall>e \<in> set t. 0 \<le> fst e \<and> fst e < int ?n"
      and row: "\<forall>k < ?n. M ! s ! k = entry_of t (int k)" by simp_all
    from rng mem fk have "0 \<le> k" "nat k < ?n" by auto
    with row ent show ?thesis by (simp add: mat_at_def)
  qed
  have tr: "mat_at Mt (nat k) s = get_probabilities t ! j"
    if Mt: "transition_mat_t states policy nature = Inr Mt" for Mt
  proof -
    from transition_mat_t_entries[OF Mt] s
    have "if is_terminal (states ! s) then (\<forall>k < ?n. Mt ! k ! s = 0)
          else (\<exists>t. resolved_transition states policy nature s = Inr t \<and>
                (\<forall>e \<in> set t. 0 \<le> fst e \<and> fst e < int ?n) \<and>
                (\<forall>k < ?n. Mt ! k ! s = entry_of t (int k)))" by blast
    with resolved_not_terminal[OF t] obtain t'
      where "resolved_transition states policy nature s = Inr t'"
        and "\<forall>e \<in> set t'. 0 \<le> fst e \<and> fst e < int ?n"
        and "\<forall>k < ?n. Mt ! k ! s = entry_of t' (int k)" by auto
    with t have rng: "\<forall>e \<in> set t. 0 \<le> fst e \<and> fst e < int ?n"
      and col: "\<forall>k < ?n. Mt ! k ! s = entry_of t (int k)" by simp_all
    from rng mem fk have "0 \<le> k" "nat k < ?n" by auto
    with col ent show ?thesis by (simp add: mat_at_def)
  qed
  from fw tr show ?thesis by blast
qed

lemma dup_fw: "transition_mat dup_states [0] [0] = Inr [[1/2]]"
  by (simp add: eval_defs dup_states_def)

lemma dup_tr: "transition_mat_t dup_states [0] [0] = Inr [[1/2]]"
  by (simp add: eval_defs dup_states_def)

theorem assignment_keeps_last_witness:
  "(0::nat) < state_count dup_states \<and>
   resolved_transition dup_states [0] [0] 0 = Inr [(0, 1/4, 0), (0, 1/2, 0)] \<and>
   (1::nat) < transition_size [(0, 1/4, 0), (0, 1/2, 0)] \<and>
   get_indices [(0, 1/4, 0), (0, 1/2, 0)] ! 1 = 0 \<and>
   transition_mat dup_states [0] [0] = Inr [[1/2]] \<and>
   transition_mat_t dup_states [0] [0] = Inr [[1/2]] \<and>
   mat_at [[1/2]] 0 (nat 0) = get_probabilities [(0, 1/4, 0), (0, 1/2, 0)] ! 1 \<and>
   mat_at [[1/2]] 0 (nat 0) \<noteq> sum_probabilities [(0, 1/4, 0), (0, 1/2, 0)]"
proof -
  have h1: "(0::nat) < state_count dup_states" by (simp add: state_count_def dup_states_def)
  have h2: "resolved_transition dup_states [0] [0] 0 = Inr [(0, 1/4, 0), (0, 1/2, 0)]"
    by (simp add: eval_defs dup_states_def)
  have h3: "(1::nat) < transition_size [(0::int, 1/4::prec_t, 0::prec_t), (0, 1/2, 0)]"
    by (simp add: transition_size_def)
  have h4: "get_indices [(0::int, 1/4::prec_t, 0::prec_t), (0, 1/2, 0)] ! 1 = 0"
    by (simp add: get_indices_def)
  have h5: "\<forall>j'. 1 < j' \<and> j' < transition_size [(0::int, 1/4::prec_t, 0::prec_t), (0, 1/2, 0)] \<longrightarrow>
      get_indices [(0::int, 1/4::prec_t, 0::prec_t), (0, 1/2, 0)] ! j' \<noteq> 0"
    by (simp add: transition_size_def)
  from assignment_keeps_last[OF h1 h2 h3 h4 h5] h1 h2 h3 h4
  show ?thesis
    by (simp add: dup_fw dup_tr sum_probabilities_def get_probabilities_def mat_at_def)
qed

text \<open>
  Claim C2. The table with one terminal state and the policy pair \<open>[0]\<close>, \<open>[0]\<close>, which
  is correct: \<open>transition_mat\<close> resolves the transition of the terminal state and fails
  there, where \<open>transition_mat_t\<close> and \<open>rewards_state\<close> skip the state and return zeros.
\<close>

theorem forward_resolves_terminal:
  "is_terminal ([State []] ! 0) \<and>
   is_policy_correct [State []] [0] [0] = Inr (- 1) \<and>
   transition_mat [State []] [0] [0] = Inl Invalid_resolution \<and>
   transition_mat_t [State []] [0] [0] = Inr [[0]] \<and>
   rewards_state [State []] [0] [0] = Inr [0]"
  by (simp add: eval_defs rewards_state_def get_state_def)

section \<open>Row sums\<close>

lemma entry_of_snoc:
  "entry_of (t @ [e]) k = (if fst e = k then fst (snd e) else entry_of t k)"
  by (simp add: entry_of_def last_probability_snoc)

lemma entry_of_absent: "k \<notin> fst ` set t \<Longrightarrow> entry_of t k = 0"
  using last_probability_None[of t k] by (simp add: entry_of_def)

lemma sum_entries_distinct:
  assumes "distinct (map fst t)" and "\<forall>e \<in> set t. 0 \<le> fst e \<and> fst e < int n"
  shows "(\<Sum>k < n. entry_of t (int k)) = sum_list (map (\<lambda>e. fst (snd e)) t)"
  using assms
proof (induction t rule: rev_induct)
  case Nil
  then show ?case by (simp add: entry_of_def)
next
  case (snoc e t)
  from snoc.prems(1) have dt: "distinct (map fst t)" and fresh: "fst e \<notin> fst ` set t" by auto
  from snoc.prems(2) have rt: "\<forall>e \<in> set t. 0 \<le> fst e \<and> fst e < int n"
    and re: "0 \<le> fst e" "nat (fst e) < n" by auto
  have zero: "entry_of t (fst e) = 0" by (rule entry_of_absent[OF fresh])
  have pt: "entry_of (t @ [e]) (int k) =
            entry_of t (int k) + (if k = nat (fst e) then fst (snd e) else 0)" for k
    using zero re(1) by (auto simp: entry_of_snoc)
  have "(\<Sum>k < n. entry_of (t @ [e]) (int k)) =
        (\<Sum>k < n. entry_of t (int k)) + (\<Sum>k < n. if k = nat (fst e) then fst (snd e) else 0)"
    by (simp add: pt sum.distrib)
  also have "(\<Sum>k < n. if k = nat (fst e) then fst (snd e) else 0) = fst (snd e)"
    using re(2) by simp
  finally show ?case using snoc.IH[OF dt rt] by simp
qed

lemma is_normalized_resolved:
  assumes "is_normalized states" and "s < length states"
    and "resolved_transition states policy nature s = Inr t"
  shows "sum_probabilities t = 1"
proof -
  from assms(3) obtain a oc where mt: "mean_transition (states ! s) a oc = Inr t"
    by (auto simp: resolved_transition_def split: sum.splits)
  then have ok: "is_action_outcome_correct (states ! s) a oc"
    and t: "t = get_outcomes (get_actions (states ! s) ! nat a) ! nat oc"
    by (auto simp: mean_transition_def split: if_splits)
  from ok have a: "nat a < length (get_actions (states ! s))"
    and oc: "nat oc < length (get_outcomes (get_actions (states ! s) ! nat a))"
    by (auto simp: is_action_outcome_correct_def)
  from assms(1,2) a oc have "transition_is_normalized t"
    unfolding t is_normalized_def list_all_length by blast
  then show ?thesis by (simp add: transition_is_normalized_def)
qed

text \<open>
  The rows that \<open>transition_mat\<close> writes: whenever it returns, every state \<open>s\<close> has a
  resolved transition, and if that transition lists no target twice, row \<open>s\<close> of the
  matrix sums to its total probability mass, which is 1 if the table is normalized.
\<close>

lemma row_sum_total_mass:
  assumes M: "transition_mat states policy nature = Inr M" and s: "s < state_count states"
  shows "\<exists>t. resolved_transition states policy nature s = Inr t \<and>
           (distinct (get_indices t) \<longrightarrow>
              sum_list (M ! s) = sum_probabilities t \<and>
              (is_normalized states \<longrightarrow> sum_list (M ! s) = 1))"
proof -
  let ?n = "state_count states"
  from transition_mat_entries[OF M] s obtain t
    where sq: "square ?n M"
      and t: "resolved_transition states policy nature s = Inr t"
      and rng: "\<forall>e \<in> set t. 0 \<le> fst e \<and> fst e < int ?n"
      and row: "\<forall>k < ?n. M ! s ! k = entry_of t (int k)" by blast
  have len: "length (M ! s) = ?n" using sq s by (simp add: square_def)
  have "sum_list (M ! s) = (\<Sum>k < ?n. M ! s ! k)"
    by (simp add: sum_list_sum_nth len atLeast0LessThan)
  also have "\<dots> = (\<Sum>k < ?n. entry_of t (int k))" using row by simp
  finally have rs: "sum_list (M ! s) = (\<Sum>k < ?n. entry_of t (int k))" .
  have "sum_list (M ! s) = sum_probabilities t \<and>
        (is_normalized states \<longrightarrow> sum_list (M ! s) = 1)" if d: "distinct (get_indices t)"
  proof -
    from d have "distinct (map fst t)" by (simp add: get_indices_def)
    from sum_entries_distinct[OF this rng] rs
    have eq: "sum_list (M ! s) = sum_probabilities t"
      by (simp add: sum_probabilities_def get_probabilities_def)
    moreover have "sum_list (M ! s) = 1" if "is_normalized states"
      using is_normalized_resolved[OF that _ t] s eq by (simp add: state_count_def)
    ultimately show ?thesis by blast
  qed
  with t show ?thesis by blast
qed

text \<open>
  Claim C4. The normalized table in which state 0 leads to the terminal state 1, with
  the correct policy pair \<open>[0, 0]\<close>, \<open>[0, 0]\<close>: the claim asks for the rows \<open>[0, 1]\<close>
  and \<open>[0, 0]\<close>, of sums 1 and 0. \<open>transition_mat\<close> returns no matrix: it resolves the
  transition of the terminal state and fails there. \<open>transition_mat_t\<close>, which skips the
  terminal state, returns the transpose of the matrix asked for.
\<close>

theorem row_sum_terminal_fails:
  "is_policy_correct absorbing_states [0, 0] [0, 0] = Inr (- 1) \<and>
   is_normalized absorbing_states \<and>
   \<not> is_terminal (absorbing_states ! 0) \<and>
   is_terminal (absorbing_states ! 1) \<and>
   transition_mat absorbing_states [0, 0] [0, 0] = Inl Invalid_resolution \<and>
   transition_mat_t absorbing_states [0, 0] [0, 0] = Inr [[0, 0], [1, 0]]"
  by (simp add: eval_defs absorbing_states_def is_normalized_def transition_is_normalized_def
      sum_probabilities_def)

section \<open>The occupancy system\<close>

lemma select_pivot_props:
  assumes "select_pivot p rs = (q, rest)"
  shows "set (q # rest) = set (p # rs) \<and> length rest = length rs \<and>
         (\<forall>e \<in> set (p # rs). \<bar>hd (fst e)\<bar> \<le> \<bar>hd (fst q)\<bar>)"
  using assms
proof (induction rs arbitrary: p q rest)
  case Nil
  then show ?case by simp
next
  case (Cons r rs)
  show ?case
  proof (cases "\<bar>hd (fst p)\<bar> < \<bar>hd (fst r)\<bar>")
    case True
    with Cons.prems obtain rest' where sp: "select_pivot r rs = (q, rest')" and r: "rest = p # rest'"
      by (auto split: prod.splits)
    from Cons.IH [OF sp] True r show ?thesis by auto
  next
    case False
    with Cons.prems obtain rest' where sp: "select_pivot p rs = (q, rest')" and r: "rest = r # rest'"
      by (auto split: prod.splits)
    from Cons.IH [OF sp] False r show ?thesis by auto
  qed
qed

lemma dot_Cons: "dot (a # u) (x # v) = a * x + dot u v"
  by (simp add: dot_def)

lemma dot_zeros: "dot u (replicate n 0) = 0"
proof (induction u arbitrary: n)
  case Nil
  then show ?case by (simp add: dot_def)
next
  case (Cons a u)
  then show ?case by (cases n) (simp_all add: dot_def)
qed

lemma dot_eliminated:
  assumes "length u = length v" and "length v = length w"
  shows "dot (map2 (\<lambda>a c. a - f * c) u v) w = dot u w - f * dot v w"
  using assms
  by (induction u v w rule: list_induct3) (simp_all add: dot_def algebra_simps)

lemma dot_sum_nth:
  assumes "length u = n" and "length v = n"
  shows "dot u v = (\<Sum>j < n. u ! j * v ! j)"
proof -
  have "dot u v = (\<Sum>j = 0..<length (zip u v). (map2 (*) u v) ! j)"
    by (simp add: dot_def sum_list_sum_nth)
  also have "\<dots> = (\<Sum>j < n. u ! j * v ! j)"
    using assms by (simp add: atLeast0LessThan)
  finally show ?thesis .
qed

lemma eliminate_length:
  assumes "length (fst p) = Suc n" and "length (fst r) = Suc n"
  shows "length (fst (eliminate p r)) = n"
  using assms by (simp add: eliminate_def Let_def)

lemma solve_rows_sound:
  assumes "solve_rows n rows = Inr x" and "length rows = n"
    and "\<forall>e \<in> set rows. length (fst e) = n"
  shows "length x = n \<and> (\<forall>e \<in> set rows. dot (fst e) x = snd e)"
  using assms
proof (induction n arbitrary: rows x)
  case 0
  then show ?case by (simp add: dot_def)
next
  case (Suc n)
  from Suc.prems(2) obtain r rs where rows: "rows = r # rs" by (cases rows) auto
  obtain p rest where sp: "select_pivot r rs = (p, rest)" by (cases "select_pivot r rs")
  from select_pivot_props [OF sp] have sets: "set (p # rest) = set rows"
    and lrest: "length rest = length rs" by (auto simp: rows)
  from Suc.prems(1) rows sp obtain xs
    where piv: "hd (fst p) \<noteq> 0"
      and xs: "solve_rows n (map (eliminate p) rest) = Inr xs"
      and x: "x = (snd p - dot (tl (fst p)) xs) / hd (fst p) # xs"
    by (auto split: if_splits sum.splits)
  from sets Suc.prems(3) have lp: "length (fst p) = Suc n"
    and lr: "\<forall>e \<in> set rest. length (fst e) = Suc n" by auto
  have "length (map (eliminate p) rest) = n" using lrest Suc.prems(2) rows by simp
  moreover have "\<forall>e \<in> set (map (eliminate p) rest). length (fst e) = n"
    using lp lr by (auto simp: eliminate_length)
  ultimately have lxs: "length xs = n"
    and red: "\<forall>e \<in> set (map (eliminate p) rest). dot (fst e) xs = snd e"
    using Suc.IH [OF xs] by auto
  obtain a as where p: "fst p = a # as" using lp by (cases "fst p") auto
  with piv have a: "a \<noteq> 0" by simp
  let ?x1 = "(snd p - dot as xs) / a"
  have xeq: "x = ?x1 # xs" using x p by simp
  have pivot_ok: "dot (fst p) x = snd p"
    using a by (simp add: p xeq dot_Cons)
  have rest_ok: "dot (fst e) x = snd e" if e: "e \<in> set rest" for e
  proof -
    from lr e obtain c cs where fe: "fst e = c # cs" by (cases "fst e") auto
    from lr e fe lp p have lcs: "length cs = length as" "length as = length xs"
      using lxs by auto
    have el: "eliminate p e = (map2 (\<lambda>a' c'. a' - c / a * c') cs as, snd e - c / a * snd p)"
      by (simp add: eliminate_def Let_def fe p)
    from red e have "dot (fst (eliminate p e)) xs = snd (eliminate p e)" by simp
    then have "dot cs xs - c / a * dot as xs = snd e - c / a * snd p"
      unfolding el fst_conv snd_conv dot_eliminated [OF lcs] .
    then have "dot cs xs = snd e - c / a * (snd p - dot as xs)" by (simp add: algebra_simps)
    then show ?thesis using a by (simp add: fe xeq dot_Cons)
  qed
  have "\<forall>e \<in> set rows. dot (fst e) x = snd e"
  proof
    fix e assume "e \<in> set rows"
    with sets have "e = p \<or> e \<in> set rest" by auto
    with pivot_ok rest_ok show "dot (fst e) x = snd e" by blast
  qed
  moreover have "length x = Suc n" using xeq lxs by simp
  ultimately show ?case by simp
qed

lemma solve_rows_returns:
  assumes "length rows = n" and "\<forall>e \<in> set rows. length (fst e) = n"
    and "\<forall>x. length x = n \<longrightarrow> (\<forall>e \<in> set rows. dot (fst e) x = 0) \<longrightarrow> x = replicate n 0"
  shows "\<exists>x. solve_rows n rows = Inr x"
  using assms
proof (induction n arbitrary: rows)
  case 0
  then show ?case by simp
next
  case (Suc n)
  from Suc.prems(1) obtain r rs where rows: "rows = r # rs" by (cases rows) auto
  obtain p rest where sp: "select_pivot r rs = (p, rest)" by (cases "select_pivot r rs")
  from select_pivot_props [OF sp] have sets: "set (p # rest) = set rows"
    and lrest: "length rest = length rs"
    and mx: "\<forall>e \<in> set rows. \<bar>hd (fst e)\<bar> \<le> \<bar>hd (fst p)\<bar>" by (auto simp: rows)
  from sets Suc.prems(2) have lp: "length (fst p) = Suc n"
    and lr: "\<forall>e \<in> set rest. length (fst e) = Suc n" by auto
  obtain a as where p: "fst p = a # as" using lp by (cases "fst p") auto
  have a: "a \<noteq> 0"
  proof
    assume "a = 0"
    with mx p have heads: "\<forall>e \<in> set rows. hd (fst e) = 0" by simp
    have "dot (fst e) (1 # replicate n 0) = 0" if "e \<in> set rows" for e
    proof -
      from Suc.prems(2) that obtain c cs where fe: "fst e = c # cs" by (cases "fst e") auto
      with heads that have "c = 0" by auto
      then show ?thesis by (simp add: fe dot_Cons dot_zeros)
    qed
    with Suc.prems(3) have "1 # replicate n 0 = replicate (Suc n) (0::real)"
      by (metis length_Cons length_replicate)
    then show False by simp
  qed
  have lred: "length (map (eliminate p) rest) = n" using lrest Suc.prems(1) rows by simp
  have dred: "\<forall>e \<in> set (map (eliminate p) rest). length (fst e) = n"
    using lp lr by (auto simp: eliminate_length)
  have kred: "\<forall>xs. length xs = n \<longrightarrow>
      (\<forall>e \<in> set (map (eliminate p) rest). dot (fst e) xs = 0) \<longrightarrow> xs = replicate n 0"
  proof (intro allI impI)
    fix xs assume lxs: "length xs = n"
      and ker: "\<forall>e \<in> set (map (eliminate p) rest). dot (fst e) xs = 0"
    let ?x1 = "- dot as xs / a"
    have pz: "dot (fst p) (?x1 # xs) = 0" using a by (simp add: p dot_Cons)
    have rz: "dot (fst e) (?x1 # xs) = 0" if e: "e \<in> set rest" for e
    proof -
      from lr e obtain c cs where fe: "fst e = c # cs" by (cases "fst e") auto
      from lr e fe lp p lxs have lcs: "length cs = length as" "length as = length xs" by auto
      have el: "eliminate p e = (map2 (\<lambda>a' c'. a' - c / a * c') cs as, snd e - c / a * snd p)"
        by (simp add: eliminate_def Let_def fe p)
      from ker e have "dot (fst (eliminate p e)) xs = 0" by simp
      then have "dot cs xs - c / a * dot as xs = 0"
        unfolding el fst_conv dot_eliminated [OF lcs] .
      then have "dot cs xs = c / a * dot as xs" by simp
      then show ?thesis using a by (simp add: fe dot_Cons)
    qed
    have "\<forall>e \<in> set rows. dot (fst e) (?x1 # xs) = 0"
    proof
      fix e assume "e \<in> set rows"
      with sets have "e = p \<or> e \<in> set rest" by auto
      with pz rz show "dot (fst e) (?x1 # xs) = 0" by blast
    qed
    moreover have "length (?x1 # xs) = Suc n" using lxs by simp
    ultimately have "?x1 # xs = replicate (Suc n) 0" using Suc.prems(3) by blast
    then show "xs = replicate n 0" by simp
  qed
  from Suc.IH [OF lred dred kred] obtain xs
    where "solve_rows n (map (eliminate p) rest) = Inr xs" by blast
  with rows sp a p show ?case by simp
qed


lemma probabilities_vector_returns:
  assumes "\<forall>e \<in> set t. 0 \<le> fst e \<and> fst e < int n"
  shows "\<exists>b. probabilities_vector n t = Inr b \<and> length b = n"
proof -
  let ?body = "\<lambda>j v. if 0 \<le> get_indices t ! j \<and> nat (get_indices t ! j) < length v
              then Inr (v[nat (get_indices t ! j) := get_probabilities t ! j])
              else Inl Out_of_range"
  have "\<exists>v. for_each [0..<m] ?body (replicate n 0) = Inr v \<and> length v = n"
    if "m \<le> length t" for m
    using that
  proof (induction m)
    case 0
    then show ?case by simp
  next
    case (Suc m)
    then obtain v where v: "for_each [0..<m] ?body (replicate n 0) = Inr v" and lv: "length v = n"
      by auto
    from Suc.prems have m: "m < length t" by simp
    then have "t ! m \<in> set t" by simp
    with assms have "0 \<le> fst (t ! m)" "fst (t ! m) < int n" by auto
    then have "0 \<le> get_indices t ! m" "nat (get_indices t ! m) < n"
      using m by (simp_all add: get_indices_def)
    with v lv show ?case unfolding for_each_upt_Suc by simp
  qed
  from this [of "length t"] show ?thesis
    by (simp add: probabilities_vector_def transition_size_def)
qed

lemma system_matrix_entries:
  assumes "square n Pt"
  shows "length (mat_add (mat_scale c Pt) (identity_matrix n)) = n \<and>
         (\<forall>i < n. length (mat_add (mat_scale c Pt) (identity_matrix n) ! i) = n \<and>
            (\<forall>j < n. mat_add (mat_scale c Pt) (identity_matrix n) ! i ! j =
                      Pt ! i ! j * c + (if i = j then 1 else 0)))"
  using assms by (simp add: square_def mat_add_def mat_scale_def identity_matrix_def)

lemma lu_solve_sound:
  assumes "lu_solve A b = Inr x" and "length b = n"
  shows "length x = n \<and> (\<forall>i < n. dot (A ! i) x = b ! i)"
proof -
  from assms have lA: "length A = n" and rows: "list_all (\<lambda>row. length row = n) A"
    and sr: "solve_rows n (zip A b) = Inr x"
    by (auto simp: lu_solve_def split: if_splits)
  have "\<forall>e \<in> set (zip A b). length (fst e) = n"
    using rows by (auto simp: list_all_iff dest: set_zip_leftD)
  with solve_rows_sound [OF sr] lA assms(2)
  have lx: "length x = n" and eq: "\<forall>e \<in> set (zip A b). dot (fst e) x = snd e" by auto
  have "dot (A ! i) x = b ! i" if "i < n" for i
  proof -
    from that lA assms(2) have "(A ! i, b ! i) \<in> set (zip A b)"
      by (auto simp: set_zip)
    with eq show ?thesis by fastforce
  qed
  with lx show ?thesis by simp
qed

lemma lu_solve_returns:
  assumes "length A = n" and "\<forall>i < n. length (A ! i) = n" and "length b = n"
    and ker: "\<forall>y. length y = n \<longrightarrow> (\<forall>i < n. dot (A ! i) y = 0) \<longrightarrow> y = replicate n 0"
  shows "\<exists>x. lu_solve A b = Inr x"
proof -
  have rows: "list_all (\<lambda>row. length row = n) A"
    using assms(1,2) by (simp add: list_all_length)
  have dims: "\<forall>e \<in> set (zip A b). length (fst e) = n"
    using rows by (auto simp: list_all_iff dest: set_zip_leftD)
  have k: "\<forall>y. length y = n \<longrightarrow> (\<forall>e \<in> set (zip A b). dot (fst e) y = 0) \<longrightarrow> y = replicate n 0"
  proof (intro allI impI)
    fix y assume ly: "length y = n" and z: "\<forall>e \<in> set (zip A b). dot (fst e) y = 0"
    have "dot (A ! i) y = 0" if "i < n" for i
    proof -
      from that assms(1,3) have "(A ! i, b ! i) \<in> set (zip A b)" by (auto simp: set_zip)
      with z show ?thesis by fastforce
    qed
    with ker ly show "y = replicate n 0" by blast
  qed
  have "length (zip A b) = n" using assms(1,3) by simp
  from solve_rows_returns [OF this dims k] rows assms(1,3) show ?thesis
    by (simp add: lu_solve_def)
qed

lemma dot_system_row:
  assumes "square n Pt" and "i < n" and "length x = n"
  shows "dot (mat_add (mat_scale (- discount) Pt) (identity_matrix n) ! i) x =
         system_row Pt discount n x i"
proof -
  let ?A = "mat_add (mat_scale (- discount) Pt) (identity_matrix n)"
  from system_matrix_entries [OF assms(1), of "- discount"] assms(2)
  have len: "length (?A ! i) = n"
    and ent: "\<forall>j < n. ?A ! i ! j = Pt ! i ! j * (- discount) + (if i = j then 1 else 0)" by auto
  have "dot (?A ! i) x = (\<Sum>j < n. ?A ! i ! j * x ! j)"
    by (rule dot_sum_nth [OF len assms(3)])
  also have "\<dots> = (\<Sum>j < n. ((if i = j then 1 else 0) - discount * mat_at Pt i j) * x ! j)"
  proof (rule sum.cong)
    fix j assume "j \<in> {..<n}"
    then have "j < n" by simp
    with ent have e: "?A ! i ! j = Pt ! i ! j * (- discount) + (if i = j then 1 else 0)" by blast
    show "?A ! i ! j * x ! j = ((if i = j then 1 else 0) - discount * mat_at Pt i j) * x ! j"
      unfolding e mat_at_def by (simp add: algebra_simps)
  qed simp
  finally show ?thesis by (simp add: system_row_def)
qed

lemma system_row_zero_discount:
  assumes "i < n"
  shows "system_row Pt 0 n x i = x ! i"
proof -
  have "system_row Pt 0 n x i = (\<Sum>j < n. if j = i then x ! j else 0)"
    unfolding system_row_def by (intro sum.cong) auto
  also have "\<dots> = x ! i" using assms by simp
  finally show ?thesis .
qed

text \<open>
  Claim C3. For a correct policy pair on a well-formed table whose targets exist, and an
  initial distribution over the states of the table, \<open>transition_mat_t\<close> returns a matrix
  \<open>Pt\<close> and the initial distribution expands to a dense vector \<open>b\<close> of length \<open>n\<close>. If
  the system \<open>I - discount * Pt\<close> is nonsingular, \<open>ofreq_mat\<close> returns a vector \<open>x\<close> of
  length \<open>n\<close> with \<open>(I - discount * Pt) x = b\<close>, row by row. With discount 0 it returns
  \<open>b\<close> itself.
\<close>

theorem ofreq_mat_solves:
  assumes correct: "is_policy_correct states policy nature = Inr (- 1)"
    and wf: "well_formed states" and ex: "targets_exist states"
    and init: "\<forall>e \<in> set init. 0 \<le> fst e \<and> fst e < int (state_count states)"
  shows "\<exists>Pt b. transition_mat_t states policy nature = Inr Pt \<and>
           probabilities_vector (state_count states) init = Inr b \<and>
           length b = state_count states \<and>
           (nonsingular Pt discount (state_count states) \<longrightarrow>
              (\<exists>x. ofreq_mat states init discount policy nature = Inr x \<and>
                   length x = state_count states \<and>
                   (\<forall>i < state_count states.
                      system_row Pt discount (state_count states) x i = b ! i))) \<and>
           (discount = 0 \<longrightarrow> ofreq_mat states init discount policy nature = Inr b)"
proof -
  let ?n = "state_count states"
  from transition_mat_t_returns [OF correct wf ex] obtain Pt
    where Pt: "transition_mat_t states policy nature = Inr Pt" by blast
  from transition_mat_t_entries [OF Pt] have sq: "square ?n Pt" by blast
  from probabilities_vector_returns [OF init] obtain b
    where b: "probabilities_vector ?n init = Inr b" and lb: "length b = ?n" by blast
  let ?A = "mat_add (mat_scale (- discount) Pt) (identity_matrix ?n)"
  have of: "ofreq_mat states init discount policy nature = lu_solve ?A b"
    using Pt b by (simp add: ofreq_mat_def Let_def)
  from system_matrix_entries [OF sq, of "- discount"]
  have lA: "length ?A = ?n" and lrow: "\<forall>i < ?n. length (?A ! i) = ?n" by auto
  have solved: "\<exists>x. ofreq_mat states init discount policy nature = Inr x \<and> length x = ?n \<and>
      (\<forall>i < ?n. system_row Pt discount ?n x i = b ! i)"
    if ns: "nonsingular Pt discount ?n"
  proof -
    have ker: "\<forall>y. length y = ?n \<longrightarrow> (\<forall>i < ?n. dot (?A ! i) y = 0) \<longrightarrow> y = replicate ?n 0"
    proof (intro allI impI)
      fix y assume ly: "length y = ?n" and z: "\<forall>i < ?n. dot (?A ! i) y = 0"
      then have "\<forall>i < ?n. system_row Pt discount ?n y i = 0"
        using dot_system_row [OF sq _ ly] by simp
      with ns ly have "\<forall>j < ?n. y ! j = 0" unfolding nonsingular_def by blast
      with ly show "y = replicate ?n 0" by (intro nth_equalityI) simp_all
    qed
    from lu_solve_returns [OF lA lrow lb ker] obtain x where x: "lu_solve ?A b = Inr x" by blast
    from lu_solve_sound [OF x lb] have lx: "length x = ?n"
      and eq: "\<forall>i < ?n. dot (?A ! i) x = b ! i" by auto
    from eq have "\<forall>i < ?n. system_row Pt discount ?n x i = b ! i"
      using dot_system_row [OF sq _ lx] by simp
    with x lx of show ?thesis by simp
  qed
  have zero: "ofreq_mat states init discount policy nature = Inr b" if d: "discount = 0"
  proof -
    have "nonsingular Pt discount ?n"
      unfolding nonsingular_def d by (simp add: system_row_zero_discount)
    from solved [OF this] obtain x
      where x: "ofreq_mat states init discount policy nature = Inr x" and lx: "length x = ?n"
        and eq: "\<forall>i < ?n. system_row Pt discount ?n x i = b ! i" by blast
    from eq have "\<forall>i < ?n. x ! i = b ! i" unfolding d by (simp add: system_row_zero_discount)
    with lx lb have "x = b" by (intro nth_equalityI) simp_all
    with x show ?thesis by simp
  qed
  from Pt b lb solved zero show ?thesis by blast
qed

lemma chain_nonsingular: "nonsingular [[0, 1/2], [1, 1/2]] (1/2) 2"
  unfolding nonsingular_def
proof (intro allI impI)
  fix y :: "prec_t list" and j :: nat
  assume H: "\<forall>i<2. system_row [[0, 1/2], [1, 1/2]] (1/2) 2 y i = 0" and j: "j < 2"
  from H [rule_format, of 0] have a: "y ! 0 - 1/4 * y ! 1 = 0"
    by (simp add: system_row_def mat_at_def eval_nat_numeral algebra_simps)
  from H [rule_format, of 1] have b: "- (1/2) * y ! 0 + 3/4 * y ! 1 = 0"
    by (simp add: system_row_def mat_at_def eval_nat_numeral algebra_simps)
  from a b have "y ! 0 = 0" "y ! 1 = 0" by simp_all
  moreover from j have "j = 0 \<or> j = 1" by auto
  ultimately show "y ! j = 0" by auto
qed

lemmas ofreq_defs = ofreq_mat_def probabilities_vector_def mat_add_def mat_scale_def
  identity_matrix_def lu_solve_def eliminate_def dot_def

theorem ofreq_mat_solves_witness:
  "is_policy_correct chain_states [0, 0] [0, 0] = Inr (- 1) \<and>
   well_formed chain_states \<and> targets_exist chain_states \<and>
   transition_mat_t chain_states [0, 0] [0, 0] = Inr [[0, 1/2], [1, 1/2]] \<and>
   probabilities_vector (state_count chain_states) [(0, 1, 0)] = Inr [1, 0] \<and>
   nonsingular [[0, 1/2], [1, 1/2]] (1/2) (state_count chain_states) \<and>
   ofreq_mat chain_states [(0, 1, 0)] (1/2) [0, 0] [0, 0] = Inr [6/5, 4/5] \<and>
   system_row [[0, 1/2], [1, 1/2]] (1/2) 2 [6/5, 4/5] 0 = 1 \<and>
   system_row [[0, 1/2], [1, 1/2]] (1/2) 2 [6/5, 4/5] 1 = 0 \<and>
   ofreq_mat chain_states [(0, 1, 0)] 0 [0, 0] [0, 0] = Inr [1, 0]"
proof -
  have n: "state_count chain_states = 2" by (simp add: state_count_def chain_states_def)
  have h1: "is_policy_correct chain_states [0, 0] [0, 0] = Inr (- 1)"
    by (simp add: eval_defs chain_states_def)
  have h2: "well_formed chain_states" by (simp add: well_formed_def chain_states_def)
  have h3: "targets_exist chain_states" by (simp add: targets_exist_def chain_states_def)
  have h4: "\<forall>e \<in> set [(0::int, 1::prec_t, 0::prec_t)]. 0 \<le> fst e \<and> fst e < int (state_count chain_states)"
    by (simp add: n)
  have Pt: "transition_mat_t chain_states [0, 0] [0, 0] = Inr [[0, 1/2], [1, 1/2]]"
    by (simp add: eval_defs chain_states_def)
  have b: "probabilities_vector (state_count chain_states) [(0, 1, 0)] = Inr [1, 0]"
    by (simp add: n probabilities_vector_def transition_size_def get_indices_def
        get_probabilities_def eval_nat_numeral)
  have x: "ofreq_mat chain_states [(0, 1, 0)] (1/2) [0, 0] [0, 0] = Inr [6/5, 4/5]"
    by (simp add: ofreq_defs eval_defs chain_states_def eval_nat_numeral)
  have r0: "system_row [[0, 1/2], [1, 1/2]] (1/2) 2 [6/5, 4/5] 0 = 1"
    and r1: "system_row [[0, 1/2], [1, 1/2]] (1/2) 2 [6/5, 4/5] 1 = 0"
    by (simp_all add: system_row_def mat_at_def eval_nat_numeral)
  from ofreq_mat_solves [OF h1 h2 h3 h4, of 0] Pt b
  have z: "ofreq_mat chain_states [(0, 1, 0)] 0 [0, 0] [0, 0] = Inr [1, 0]" by simp
  from h1 h2 h3 Pt b chain_nonsingular x r0 r1 z show ?thesis by (simp add: n)
qed

section \<open>Normalization\<close>

lemma map_err_all:
  assumes "\<forall>x \<in> set xs. \<exists>y. f x = Inr y \<and> Q y"
  shows "\<exists>ys. map_err f xs = Inr ys \<and> list_all Q ys"
  using assms by (induction xs) auto

lemma map_err_id:
  assumes "\<forall>x \<in> set xs. f x = Inr x"
  shows "map_err f xs = Inr xs"
  using assms by (induction xs) auto

lemma sum_list_scaled:
  "sum_list (map (\<lambda>e. fst (snd e) / c) t) = sum_list (map (\<lambda>e. fst (snd e)) t) / (c::real)"
  by (induction t) (auto simp: add_divide_distrib)

lemma sum_probabilities_scaled:
  "sum_probabilities (map (\<lambda>(i, p, r). (i, p / c, r)) t) = sum_probabilities t / c"
proof -
  have "get_probabilities (map (\<lambda>(i, p, r). (i, p / c, r)) t) = map (\<lambda>e. fst (snd e) / c) t"
    by (simp add: get_probabilities_def case_prod_beta)
  then show ?thesis
    by (simp add: sum_probabilities_def sum_list_scaled) (simp add: get_probabilities_def)
qed

lemma transition_normalize_fixed:
  assumes "transition_is_normalized t"
  shows "transition_normalize t = Inr t"
proof -
  from assms have one: "sum_probabilities t = 1" by (simp add: transition_is_normalized_def)
  have "map (\<lambda>(i, p, r). (i, p / 1, r)) t = t" by (induction t) auto
  with one show ?thesis by (simp add: transition_normalize_def)
qed

lemma transition_normalize_normalizes:
  assumes "sum_probabilities t \<noteq> 0"
  shows "\<exists>t'. transition_normalize t = Inr t' \<and> transition_is_normalized t'"
proof -
  let ?c = "sum_probabilities t"
  let ?t' = "map (\<lambda>(i, p, r). (i, p / ?c, r)) t"
  have "sum_probabilities ?t' = ?c / ?c" by (rule sum_probabilities_scaled)
  with assms have "transition_is_normalized ?t'" by (simp add: transition_is_normalized_def)
  with assms show ?thesis by (simp add: transition_normalize_def)
qed

lemma action_normalize_fixed:
  assumes "list_all transition_is_normalized (get_outcomes a)"
  shows "action_normalize a = Inr a"
proof -
  have "map_err transition_normalize (get_outcomes a) = Inr (get_outcomes a)"
    using assms by (intro map_err_id) (simp add: list_all_iff transition_normalize_fixed)
  then show ?thesis by (simp add: action_normalize_def)
qed

lemma action_normalize_normalizes:
  assumes "list_all (\<lambda>t. sum_probabilities t \<noteq> 0) (get_outcomes a)"
  shows "\<exists>a'. action_normalize a = Inr a' \<and>
              list_all transition_is_normalized (get_outcomes a')"
proof -
  have "\<exists>ts. map_err transition_normalize (get_outcomes a) = Inr ts \<and>
             list_all transition_is_normalized ts"
    using assms by (intro map_err_all) (simp add: list_all_iff transition_normalize_normalizes)
  then show ?thesis by (auto simp: action_normalize_def)
qed

lemma state_normalize_fixed:
  assumes "list_all (\<lambda>a. list_all transition_is_normalized (get_outcomes a)) (get_actions s)"
  shows "state_normalize s = Inr s"
proof -
  have "map_err action_normalize (get_actions s) = Inr (get_actions s)"
  proof (intro map_err_id ballI)
    fix a assume "a \<in> set (get_actions s)"
    with assms have "list_all transition_is_normalized (get_outcomes a)"
      by (simp add: list_all_iff)
    then show "action_normalize a = Inr a" by (rule action_normalize_fixed)
  qed
  then show ?thesis by (simp add: state_normalize_def)
qed

lemma state_normalize_normalizes:
  assumes "list_all (\<lambda>a. list_all (\<lambda>t. sum_probabilities t \<noteq> 0) (get_outcomes a)) (get_actions s)"
  shows "\<exists>s'. state_normalize s = Inr s' \<and>
     list_all (\<lambda>a. list_all transition_is_normalized (get_outcomes a)) (get_actions s')"
proof -
  have "\<exists>as. map_err action_normalize (get_actions s) = Inr as \<and>
             list_all (\<lambda>a. list_all transition_is_normalized (get_outcomes a)) as"
  proof (intro map_err_all ballI)
    fix a assume "a \<in> set (get_actions s)"
    with assms have "list_all (\<lambda>t. sum_probabilities t \<noteq> 0) (get_outcomes a)"
      by (simp add: list_all_iff)
    then show "\<exists>y. action_normalize a = Inr y \<and>
                 list_all transition_is_normalized (get_outcomes y)"
      by (rule action_normalize_normalizes)
  qed
  then show ?thesis by (auto simp: state_normalize_def)
qed

text \<open>
  Claim C9. For a table in which every outcome has a total probability weight other
  than zero, \<open>normalize\<close> returns a table, \<open>normalize\<close> applied again returns that same
  table, and \<open>is_normalized\<close> holds of it.
\<close>

theorem normalize_idempotent:
  assumes "nonzero_weights states"
  shows "\<exists>states'. normalize_mdp states = Inr states' \<and>
           normalize_mdp states' = Inr states' \<and>
           is_normalized states'"
proof -
  have "\<exists>ss. map_err state_normalize states = Inr ss \<and>
          list_all (\<lambda>s. list_all (\<lambda>a. list_all transition_is_normalized (get_outcomes a))
                                  (get_actions s)) ss"
  proof (intro map_err_all ballI)
    fix s assume "s \<in> set states"
    with assms have "list_all (\<lambda>a. list_all (\<lambda>t. sum_probabilities t \<noteq> 0) (get_outcomes a))
                       (get_actions s)"
      by (simp add: nonzero_weights_def list_all_iff)
    then show "\<exists>y. state_normalize s = Inr y \<and>
                 list_all (\<lambda>a. list_all transition_is_normalized (get_outcomes a)) (get_actions y)"
      by (rule state_normalize_normalizes)
  qed
  then obtain ss where once: "normalize_mdp states = Inr ss" and norm: "is_normalized ss"
    by (auto simp: normalize_mdp_def is_normalized_def)
  have "map_err state_normalize ss = Inr ss"
  proof (intro map_err_id ballI)
    fix s assume "s \<in> set ss"
    with norm have "list_all (\<lambda>a. list_all transition_is_normalized (get_outcomes a)) (get_actions s)"
      by (simp add: is_normalized_def list_all_iff)
    then show "state_normalize s = Inr s" by (rule state_normalize_fixed)
  qed
  then have "normalize_mdp ss = Inr ss" by (simp add: normalize_mdp_def)
  with once norm show ?thesis by blast
qed

lemmas norm_defs = normalize_mdp_def state_normalize_def action_normalize_def transition_normalize_def
  sum_probabilities_def get_probabilities_def is_normalized_def transition_is_normalized_def

theorem normalize_idempotent_witness:
  "nonzero_weights skewed_states \<and>
   normalize_mdp skewed_states =
     Inr [State [Action [[(0, 1/4, 0), (1, 3/4, 5)]], Action [[(1, 1, 1)]]], State []] \<and>
   normalize_mdp [State [Action [[(0, 1/4, 0), (1, 3/4, 5)]], Action [[(1, 1, 1)]]], State []] =
     Inr [State [Action [[(0, 1/4, 0), (1, 3/4, 5)]], Action [[(1, 1, 1)]]], State []] \<and>
   is_normalized [State [Action [[(0, 1/4, 0), (1, 3/4, 5)]], Action [[(1, 1, 1)]]], State []]"
proof -
  have h: "nonzero_weights skewed_states"
    by (simp add: nonzero_weights_def skewed_states_def sum_probabilities_def get_probabilities_def)
  have e: "normalize_mdp skewed_states =
     Inr [State [Action [[(0, 1/4, 0), (1, 3/4, 5)]], Action [[(1, 1, 1)]]], State []]"
    by (simp add: norm_defs skewed_states_def)
  from normalize_idempotent[OF h] h e show ?thesis by simp
qed

end
